theory Spec2Isabelle
  imports Main "HOL-Library.Word"
begin

unbundle bit_operations_syntax

section \<open>Data model\<close>

type_synonym byte = "8 word"

text \<open>
  The errors the package hands to the application. \<open>ErrClosedConn\<close> is the package
  variable of that name; the others are the values built in place with \<open>fmt.Errorf\<close>
  (\<open>ErrPeerClosed\<close> is the one built in the orchestrator, whose text is
  "use if closed connection"), \<open>ErrTimeout\<close> is \<open>&timeoutError{}\<close> and
  \<open>ErrCarrier\<close> stands for an error returned by the HTTP carrier.
\<close>

datatype error =
    ErrClosedConn
  | ErrInvalidFrames
  | ErrUnsyncedCounter
  | ErrUnmatchedStreamIndex
  | ErrMissingFrame
  | ErrPeerClosed
  | ErrTimeout
  | ErrCarrier string

text \<open>
  Modelled from the spec: the declaration of \<open>frame\<close> is not among the sources. Its
  fields are the ones the sources read and write (\<open>idx\<close>, \<open>connIdx\<close>, \<open>options\<close>,
  \<open>data\<close>; the chain link \<open>next\<close> is a list of frames where a chain is built). The
  width of the sequence number and of the connection identifier differ between the
  source files (the read side compares \<open>f.idx\<close> with a \<open>uint64\<close> and \<open>f.connIdx\<close>
  with a \<open>uint32\<close>, the client builds \<open>idx\<close> from a \<open>uint32\<close> and \<open>connIdx\<close> from a
  \<open>uint64\<close>), so both widths are type parameters: \<open>'i\<close> for sequence numbers and
  \<open>'c\<close> for connection identifiers. The options are the two bytes of the wire format.
\<close>

record (overloaded) ('i, 'c) frame =
  idx :: "'i word"
  connIdx :: "'c word"
  options :: "16 word"
  data :: "byte list"

text \<open>
  A Go channel: the queued elements in arrival order, and whether \<open>close\<close> was called.
  The capacity only decides when a sender is parked; a send is recorded here at the
  moment it completes.
\<close>

record 'a chan =
  items :: "'a list"
  chan_closed :: bool

text \<open>Sending on a closed channel panics (\<open>None\<close>).\<close>

definition chan_send :: "'a \<Rightarrow> 'a chan \<Rightarrow> 'a chan option" where
  "chan_send x ch = (if chan_closed ch then None else Some (ch\<lparr>items := items ch @ [x]\<rparr>))"

text \<open>Closing a closed channel panics (\<open>None\<close>).\<close>

definition chan_close :: "'a chan \<Rightarrow> 'a chan option" where
  "chan_close ch = (if chan_closed ch then None else Some (ch\<lparr>chan_closed := True\<rparr>))"

text \<open>
  The wait object is an external utility; the model keeps the calls made on it, in
  order. Whether its deadline has passed is an input of \<open>Read\<close>.
\<close>

datatype wo_call = Touch | SetWaitDeadlineNow

definition MaxWriteBufferSize :: int where
  "MaxWriteBufferSize = 1024 * 1024 * 1"

text \<open>
  \<open>aes.NewCipher\<close> of the Go library: a key of 16, 24 or 32 bytes gives a block
  (AES-128, AES-192, AES-256), any other length the error \<open>KeySizeError\<close> (which
  carries the length). A block is determined by its key, and stands for it here.
\<close>

datatype aes_size = AES128 | AES192 | AES256

type_synonym block = "aes_size \<times> string"

definition NewCipher :: "string \<Rightarrow> nat + block" where
  "NewCipher k =
     (if length k = 16 then Inr (AES128, k)
      else if length k = 24 then Inr (AES192, k)
      else if length k = 32 then Inr (AES256, k)
      else Inl (length k))"

text \<open>\<open>blk, _ := aes.NewCipher(...)\<close>: the block, or \<open>nil\<close> (\<open>None\<close>) on an error.\<close>

definition block_of :: "nat + block \<Rightarrow> block option" where
  "block_of r = (case r of Inl e \<Rightarrow> None | Inr b \<Rightarrow> Some b)"

text \<open>\<open>xs[:n]\<close>: slicing beyond the length panics (\<open>None\<close>).\<close>

definition slice_to :: "nat \<Rightarrow> 'a list \<Rightarrow> 'a list option" where
  "slice_to n xs = (if n \<le> length xs then Some (take n xs) else None)"

section \<open>The read side\<close>

text \<open>
  \<open>readConn\<close> of \<open>read_conn.go\<close>. The field \<open>idx\<close> of the source is \<open>rc_idx\<close> here
  (the frame has a field of that name), the mutex is left out: every function below is
  one critical section or one unlocked statement sequence of the source.
\<close>

record (overloaded) ('i, 'c) readConn =
  counter :: "'i word"
  buf :: "byte list"
  frames :: "('i, 'c) frame chan"
  futureframes :: "'i word \<rightharpoonup> ('i, 'c) frame"
  futureSize :: int
  ready :: "wo_call list"
  err :: "error option"
  blk :: "block option"
  closed :: bool
  tag :: byte
  rc_idx :: "'c word"

definition newReadConn :: "'c::len word \<Rightarrow> block option \<Rightarrow> byte \<Rightarrow> ('i::len, 'c) readConn" where
  "newReadConn i b t =
     \<lparr>counter = 0, buf = [], frames = \<lparr>items = [], chan_closed = False\<rparr>,
      futureframes = Map.empty, futureSize = 0, ready = [], err = None, blk = b,
      closed = False, tag = t, rc_idx = i\<rparr>"

text \<open>\<open>close\<close>: nothing when already closed; \<open>None\<close> is the panic of \<open>close(c.frames)\<close>.\<close>

definition close :: "('i::len, 'c::len) readConn \<Rightarrow> ('i, 'c) readConn option" where
  "close c =
     (if closed c then Some c
      else case chan_close (frames c) of
             None \<Rightarrow> None
           | Some ch \<Rightarrow> Some (c\<lparr>closed := True, frames := ch,
                                ready := ready c @ [SetWaitDeadlineNow]\<rparr>))"

definition feedError :: "error \<Rightarrow> ('i::len, 'c::len) readConn \<Rightarrow> ('i, 'c) readConn option" where
  "feedError e c = close (c\<lparr>err := Some e, ready := ready c @ [Touch]\<rparr>)"

text \<open>
  How one pass of the reassembly loop ends: it goes round again, it is parked on the
  empty channel, it returns (the goroutine is over), or it panics.
\<close>

datatype loop_ctl = Continue | Blocked | Return | Panic

text \<open>
  The inner \<open>for\<close> of \<open>readLoopRearrange\<close>: move the frames that follow the counter
  from the map to the buffer. The source loops as long as the map has an entry at
  \<open>counter + 1\<close>; \<open>None\<close> is the loop that never ends.
\<close>

partial_function (option) drain ::
  "('i::len, 'c::len) readConn \<Rightarrow> (loop_ctl \<times> ('i, 'c) readConn) option" where
  "drain c =
     (case futureframes c (counter c + 1) of
        Some f \<Rightarrow>
          drain (c\<lparr>buf := buf c @ data f,
                   counter := idx f,
                   futureframes := (futureframes c)(idx f := None),
                   futureSize := futureSize c - int (length (data f))\<rparr>)
      | None \<Rightarrow>
          (if futureSize c > MaxWriteBufferSize
           then (case feedError ErrMissingFrame c of
                   None \<Rightarrow> Some (Panic, c)
                 | Some c' \<Rightarrow> Some (Return, c'))
           else Some (Continue, c)))"

declare drain.simps [code]

text \<open>The body of \<open>case f, ok := <-c.frames\<close> for a received frame \<open>f\<close>.\<close>

definition on_frame ::
  "('i::len, 'c::len) frame \<Rightarrow> ('i, 'c) readConn \<Rightarrow> (loop_ctl \<times> ('i, 'c) readConn) option" where
  "on_frame f c =
     (if connIdx f \<noteq> rc_idx c
      then (case feedError ErrUnmatchedStreamIndex c of
              None \<Rightarrow> Some (Panic, c)
            | Some c' \<Rightarrow> Some (Return, c'))
      else if idx f \<le> counter c then Some (Return, c)
      else (case drain (c\<lparr>futureframes := (futureframes c)(idx f \<mapsto> f),
                           futureSize := futureSize c + int (length (data f))\<rparr>) of
              None \<Rightarrow> None
            | Some (Continue, c') \<Rightarrow> Some (Continue, c'\<lparr>ready := ready c' @ [Touch]\<rparr>)
            | Some (ctl, c') \<Rightarrow> Some (ctl, c')))"

text \<open>One turn of the outer \<open>for\<close>/\<open>select\<close>: receive from \<open>c.frames\<close>.\<close>

definition loop_turn ::
  "('i::len, 'c::len) readConn \<Rightarrow> (loop_ctl \<times> ('i, 'c) readConn) option" where
  "loop_turn c =
     (case items (frames c) of
        [] \<Rightarrow> (if chan_closed (frames c) then Some (Return, c) else Some (Blocked, c))
      | f # fs \<Rightarrow> on_frame f (c\<lparr>frames := (frames c)\<lparr>items := fs\<rparr>\<rparr>))"

text \<open>
  \<open>readLoopRearrange\<close>: the goroutine, run until it is parked on the empty channel,
  returns or panics.
\<close>

partial_function (option) readLoopRearrange ::
  "('i::len, 'c::len) readConn \<Rightarrow> (loop_ctl \<times> ('i, 'c) readConn) option" where
  "readLoopRearrange c =
     (case loop_turn c of
        None \<Rightarrow> None
      | Some (Continue, c') \<Rightarrow> readLoopRearrange c'
      | Some (ctl, c') \<Rightarrow> Some (ctl, c'))"

declare readLoopRearrange.simps [code]

text \<open>
  \<open>Read\<close>, one pass from the label \<open>READ\<close>: \<open>n\<close> is \<open>len(p)\<close>, \<open>timedout\<close> is what
  \<open>c.ready.IsTimedout()\<close> answers. The result is the bytes copied into \<open>p\<close>, the
  error, or \<open>ReadWait\<close> when the caller is parked in \<open>c.ready.Wait()\<close>.
\<close>

datatype read_result = ReadOk "byte list" | ReadErr error | ReadWait

definition Read ::
  "('i::len, 'c::len) readConn \<Rightarrow> nat \<Rightarrow> bool \<Rightarrow> read_result \<times> ('i, 'c) readConn" where
  "Read c n timedout =
     (if closed c then (ReadErr ErrClosedConn, c)
      else case err c of
        Some e \<Rightarrow> (ReadErr e, c)
      | None \<Rightarrow>
          if timedout then (ReadErr ErrTimeout, c)
          else if length (buf c) > 0
            then (ReadOk (take n (buf c)), c\<lparr>buf := drop n (buf c)\<rparr>)
            else (ReadWait, c))"

text \<open>
  \<open>Read\<close> after \<open>c.ready.Wait()\<close> has returned \<open>ontime\<close>: an error, or \<open>None\<close> for
  \<open>goto READ\<close>.
\<close>

definition Read_woken :: "('i::len, 'c::len) readConn \<Rightarrow> bool \<Rightarrow> error option" where
  "Read_woken c ontime =
     (if closed c then Some ErrClosedConn
      else if \<not> ontime then Some ErrTimeout
      else None)"

section \<open>The read side as a system\<close>

text \<open>
  What can happen to a read side, one event at a time: a producer sends a frame on
  \<open>c.frames\<close>, the reassembly goroutine takes one turn, the application calls
  \<open>Read\<close> (with \<open>len(p)\<close> and the answer of \<open>IsTimedout\<close>), somebody calls
  \<open>feedError\<close> or \<open>close\<close>. Any interleaving of the goroutines is a list of events.
\<close>

datatype 'f revent = Send 'f | LoopTurn | ReadCall nat bool | FeedError error | CloseRead

text \<open>
  The read side, whether its reassembly goroutine is still running, and every byte
  \<open>Read\<close> has handed to the application so far.
\<close>

record (overloaded) ('i, 'c) rsys =
  rc :: "('i, 'c) readConn"
  loop_alive :: bool
  delivered :: "byte list"

text \<open>
  A send on the closed channel panics in the sender and leaves the read side as it is
  (\<open>feedframes\<close> recovers from it). A panic of the reassembly goroutine, of
  \<open>feedError\<close> or of \<open>close\<close> ends the program: \<open>None\<close>.
\<close>

fun rstep :: "('i::len, 'c::len) frame revent \<Rightarrow> ('i, 'c) rsys \<Rightarrow> ('i, 'c) rsys option" where
  "rstep (Send f) s =
     (case chan_send f (frames (rc s)) of
        None \<Rightarrow> Some s
      | Some ch \<Rightarrow> Some (s\<lparr>rc := (rc s)\<lparr>frames := ch\<rparr>\<rparr>))"
| "rstep LoopTurn s =
     (if \<not> loop_alive s then Some s
      else case loop_turn (rc s) of
             None \<Rightarrow> None
           | Some (Panic, c') \<Rightarrow> None
           | Some (Return, c') \<Rightarrow> Some (s\<lparr>rc := c', loop_alive := False\<rparr>)
           | Some (ctl, c') \<Rightarrow> Some (s\<lparr>rc := c'\<rparr>))"
| "rstep (ReadCall n t) s =
     (case Read (rc s) n t of
        (ReadOk bs, c') \<Rightarrow> Some (s\<lparr>rc := c', delivered := delivered s @ bs\<rparr>)
      | (r, c') \<Rightarrow> Some (s\<lparr>rc := c'\<rparr>))"
| "rstep (FeedError e) s =
     (case feedError e (rc s) of None \<Rightarrow> None | Some c' \<Rightarrow> Some (s\<lparr>rc := c'\<rparr>))"
| "rstep CloseRead s =
     (case close (rc s) of None \<Rightarrow> None | Some c' \<Rightarrow> Some (s\<lparr>rc := c'\<rparr>))"

fun rrun :: "('i::len, 'c::len) frame revent list \<Rightarrow> ('i, 'c) rsys \<Rightarrow> ('i, 'c) rsys option" where
  "rrun [] s = Some s"
| "rrun (ev # evs) s = (case rstep ev s of None \<Rightarrow> None | Some s' \<Rightarrow> rrun evs s')"

text \<open>The frames the producers have sent in a list of events.\<close>

definition sent_frames :: "'f revent list \<Rightarrow> 'f set" where
  "sent_frames evs = {f. Send f \<in> set evs}"

text \<open>\<open>newReadConn\<close> starts the reassembly goroutine.\<close>

definition rinit :: "'c::len word \<Rightarrow> block option \<Rightarrow> byte \<Rightarrow> ('i::len, 'c) rsys" where
  "rinit i b t = \<lparr>rc = newReadConn i b t, loop_alive = True, delivered = []\<rparr>"

text \<open>
  The invariant of the read side, for the set \<open>S\<close> of frames sent so far and the bytes
  \<open>pre\<close> already read: every stored future frame sits under its own \<open>idx\<close>, above the
  counter; the channel is closed exactly when \<open>closed\<close> is set; and the bytes read
  followed by the buffer are the data of frames numbered \<open>1, 2, ..., counter\<close>.
\<close>

definition rc_inv :: "('i::len, 'c::len) frame set \<Rightarrow> byte list \<Rightarrow> ('i, 'c) readConn \<Rightarrow> bool" where
  "rc_inv S pre c \<longleftrightarrow>
     (\<forall>k f. futureframes c k = Some f \<longrightarrow> idx f = k \<and> counter c < k \<and> f \<in> S) \<and>
     set (items (frames c)) \<subseteq> S \<and>
     chan_closed (frames c) = closed c \<and>
     (\<exists>gs. pre @ buf c = concat (map data gs) \<and>
           map (\<lambda>g. unat (idx g)) gs = [1..<Suc (unat (counter c))] \<and> set gs \<subseteq> S)"

definition sys_inv :: "('i::len, 'c::len) frame set \<Rightarrow> ('i, 'c) rsys \<Rightarrow> bool" where
  "sys_inv S s \<longleftrightarrow> rc_inv S (delivered s) (rc s)"

text \<open>The payload bytes held by the future-frames map.\<close>

definition future_total :: "('i::len, 'c::len) readConn \<Rightarrow> int" where
  "future_total c = (\<Sum>k \<in> dom (futureframes c). int (length (data (the (futureframes c k)))))"





section \<open>The client connection\<close>

text \<open>
  The option constants are declared with the frame, outside the sources at hand, so
  the functions that use them take their values as the parameter \<open>K\<close>.
\<close>

record opts =
  optSyncConnIdx :: "16 word"
  optSyncCtr :: "16 word"
  optHello :: "16 word"
  optClosed :: "16 word"
  optPing :: "16 word"

text \<open>
  \<open>respNode\<close>: a response body still to be parsed (\<open>node_r\<close>, the bytes of the body;
  \<open>None\<close> is \<open>nil\<close>) or a single frame from the orchestrator (\<open>node_f\<close>).
\<close>

record (overloaded) ('i, 'c) respNode =
  node_r :: "byte list option"
  node_f :: "('i, 'c) frame"

definition zero_frame :: "('i::len, 'c::len) frame" where
  "zero_frame = \<lparr>idx = 0, connIdx = 0, options = 0, data = []\<rparr>"

text \<open>Times and durations are nanoseconds, as in Go.\<close>

type_synonym time = int

definition Second :: int where
  "Second = 1000000000"

definition InactivePurge :: int where
  "InactivePurge = 60 * Second"

text \<open>
  The callback a scheduled tick holds: \<open>c.schedSending\<close> (as scheduled by
  \<open>newClientConn\<close>) or the closure that first resets \<open>pendingSize\<close> to 1.
\<close>

datatype tick = SchedSending | ResetSchedSending

text \<open>
  The client source holds an earlier draft of the client (no cipher, no \<open>respCh\<close>,
  no \<open>pendingSize\<close>) followed by the current one; the model is of the current one.
  \<open>ClientConn\<close>, the nested structs flattened
  (\<open>c.write.buf\<close> is \<open>write_buf\<close>, \<open>c.write.survey.pendingSize\<close> is \<open>pendingSize\<close>).
  \<open>write_sched\<close> is the callback pending on the schedule key, if any; \<open>respChOnce\<close>
  tells whether the \<open>sync.Once\<close> has run. Two fields are not in the source and only
  record effects: \<open>posted\<close>, the frame chains handed to \<open>c.send\<close>, and \<open>flushes\<close>,
  the number of calls of \<open>orchSendWriteBuf(c)\<close>.
\<close>

record (overloaded) ('i, 'c) ClientConn =
  cc_idx :: "'c word"
  endpoint :: string
  write_counter :: "'i word"
  write_sched :: "tick option"
  write_buf :: "byte list"
  lastIsPositive :: bool
  pendingSize :: "64 word"
  reschedCount :: "64 word"
  respCh :: "('i, 'c) respNode chan"
  respChOnce :: bool
  read :: "('i, 'c) readConn"
  posted :: "('i, 'c) frame list list"
  flushes :: nat

text \<open>
  \<open>newClientConn\<close>. \<open>i\<close> is the answer of \<open>newConnectionIdx()\<close>, \<open>rnd\<close> that of
  \<open>rand.Uint32()\<close>, \<open>hello\<close> the error of the hello POST, if any.
\<close>

definition newClientConn ::
  "opts \<Rightarrow> string \<Rightarrow> block option \<Rightarrow> 'c::len word \<Rightarrow> 'i::len word \<Rightarrow> error option
     \<Rightarrow> error + ('i, 'c) ClientConn" where
  "newClientConn K ep b i rnd hello =
     (let c = \<lparr>cc_idx = i, endpoint = ep, write_counter = 0, write_sched = None,
                write_buf = [], lastIsPositive = False, pendingSize = 1, reschedCount = 0,
                respCh = \<lparr>items = [], chan_closed = False\<rparr>, respChOnce = False,
                read = newReadConn i b 99,
                posted = [[\<lparr>idx = rnd, connIdx = i, options = optSyncConnIdx K, data = []\<rparr>,
                           \<lparr>idx = 0, connIdx = i, options = optHello K, data = []\<rparr>]],
                flushes = 0\<rparr>
      in case hello of
           Some e \<Rightarrow> Inl e
         | None \<Rightarrow> Inr (c\<lparr>write_sched := Some SchedSending\<rparr>))"

text \<open>
  \<open>Dial\<close>: the block from the first 16 bytes of the network name followed by
  \<open>"0123456789abcdef"\<close>, then \<open>newClientConn\<close>. \<open>None\<close> is the panic of the slice.
\<close>

definition Dial ::
  "opts \<Rightarrow> string \<Rightarrow> string \<Rightarrow> 'c::len word \<Rightarrow> 'i::len word \<Rightarrow> error option
     \<Rightarrow> (error + ('i, 'c) ClientConn) option" where
  "Dial K network address i rnd hello =
     (case slice_to 16 (network @ ''0123456789abcdef'') of
        None \<Rightarrow> None
      | Some k \<Rightarrow>
          Some (newClientConn K (''http://'' @ address @ ''/'') (block_of (NewCipher k))
                  i rnd hello))"

text \<open>
  \<open>Listen\<close> of \<open>listen.go\<close>. Of the \<open>Listener\<close> the model keeps \<open>closed\<close> and
  \<open>blk\<close>; the listening socket, the channels and the map of server connections
  (empty at this point) are left out. \<open>lnerr\<close> is the error of \<open>net.Listen\<close>, if any.
\<close>

record Listener =
  l_closed :: bool
  l_blk :: "block option"

definition Listen :: "string \<Rightarrow> string \<Rightarrow> error option \<Rightarrow> (error + Listener) option" where
  "Listen network address lnerr =
     (case lnerr of
        Some e \<Rightarrow> Some (Inl e)
      | None \<Rightarrow>
          (case slice_to 16 (network @ ''0123456789abcdef'') of
             None \<Rightarrow> None
           | Some k \<Rightarrow> Some (Inr \<lparr>l_closed = False, l_blk = block_of (NewCipher k)\<rparr>)))"

text \<open>
  \<open>Close\<close>: cancel the tick, close the read side, and once only close \<open>respCh\<close> and
  send the \<open>optClosed\<close> frame. \<open>None\<close> is a panic (of a \<open>close\<close> on a closed channel).
\<close>

definition Close :: "opts \<Rightarrow> ('i::len, 'c::len) ClientConn \<Rightarrow> ('i, 'c) ClientConn option" where
  "Close K c =
     (case close (read c) of
        None \<Rightarrow> None
      | Some r' \<Rightarrow>
          (let c1 = c\<lparr>write_sched := None, read := r'\<rparr>
           in if respChOnce c1 then Some c1
              else case chan_close (respCh c1) of
                     None \<Rightarrow> None
                   | Some ch \<Rightarrow>
                       Some (c1\<lparr>respChOnce := True, respCh := ch,
                                 posted := posted c1 @
                                   [[\<lparr>idx = 0, connIdx = cc_idx c1, options = optClosed K,
                                      data = []\<rparr>]]\<rparr>)))"

fun Close_times :: "opts \<Rightarrow> nat \<Rightarrow> ('i::len, 'c::len) ClientConn \<Rightarrow> ('i, 'c) ClientConn option" where
  "Close_times K 0 c = Some c"
| "Close_times K (Suc n) c = (case Close K c of None \<Rightarrow> None | Some c' \<Rightarrow> Close_times K n c')"

definition schedSending :: "opts \<Rightarrow> ('i::len, 'c::len) ClientConn \<Rightarrow> ('i, 'c) ClientConn option" where
  "schedSending K c =
     (let c1 = c\<lparr>reschedCount := reschedCount c + 1\<rparr>
      in if err (read c1) \<noteq> None \<or> closed (read c1) then Close K c1
         else Some (c1\<lparr>flushes := Suc (flushes c1), write_sched := Some ResetSchedSending\<rparr>))"

text \<open>
  \<open>Write\<close>, one pass from the label \<open>REWRITE\<close>: the bytes taken, the error, or
  \<open>WriteParked\<close> when the caller sleeps a second before \<open>goto REWRITE\<close>.
\<close>

datatype write_result = WriteOk nat | WriteErr error | WriteParked

definition Write ::
  "opts \<Rightarrow> ('i::len, 'c::len) ClientConn \<Rightarrow> byte list
     \<Rightarrow> (write_result \<times> ('i, 'c) ClientConn) option" where
  "Write K c p =
     (case err (read c) of
        Some e \<Rightarrow> Some (WriteErr e, c)
      | None \<Rightarrow>
          if closed (read c) then Some (WriteErr ErrClosedConn, c)
          else if int (length (write_buf c)) > MaxWriteBufferSize then Some (WriteParked, c)
          else (let c1 = c\<lparr>write_sched := Some ResetSchedSending,
                            write_buf := write_buf c @ p\<rparr>
                in if int (length (write_buf c1)) < sint (pendingSize c1)
                   then Some (WriteOk (length p), c1)
                   else case schedSending K c1 of
                          None \<Rightarrow> None
                        | Some c2 \<Rightarrow> Some (WriteOk (length p), c2)))"

text \<open>The scheduled tick fires: the pending callback runs, once.\<close>

definition fire :: "opts \<Rightarrow> ('i::len, 'c::len) ClientConn \<Rightarrow> ('i, 'c) ClientConn option" where
  "fire K c =
     (case write_sched c of
        None \<Rightarrow> Some c
      | Some SchedSending \<Rightarrow> schedSending K (c\<lparr>write_sched := None\<rparr>)
      | Some ResetSchedSending \<Rightarrow> schedSending K (c\<lparr>write_sched := None, pendingSize := 1\<rparr>))"

text \<open>
  One call of \<open>c.send\<close> inside \<open>sendWriteBuf\<close>: the response body, or the error
  together with the clock \<open>time.Now()\<close> reads after it.
\<close>

datatype attempt = PostOk "byte list" | PostErr error time

datatype send_status = SendAborted | SendFailed | SendDone | SendSwallowed | SendPanic

text \<open>
  The \<open>for\<close> of \<open>sendWriteBuf\<close> over the outcomes of its POSTs, deadline \<open>d\<close>, chain
  \<open>fs\<close>. A failure after the deadline feeds the error to the read side; a failure
  before it tries again; a success truncates the buffer, increments the counter and
  sends the body on \<open>respCh\<close>, the panic of a closed \<open>respCh\<close> being recovered
  (\<open>SendSwallowed\<close>). \<open>None\<close>: the loop is still running after these outcomes.
\<close>

fun post_loop ::
  "time \<Rightarrow> ('i::len, 'c::len) frame list \<Rightarrow> attempt list \<Rightarrow> ('i, 'c) ClientConn
     \<Rightarrow> (send_status \<times> ('i, 'c) ClientConn) option" where
  "post_loop d fs [] c = None"
| "post_loop d fs (PostErr e now # as) c =
     (let c1 = c\<lparr>posted := posted c @ [fs]\<rparr>
      in if now > d
         then (case feedError e (read c1) of
                 None \<Rightarrow> Some (SendPanic, c1)
               | Some r' \<Rightarrow> Some (SendFailed, c1\<lparr>read := r'\<rparr>))
         else post_loop d fs as c1)"
| "post_loop d fs (PostOk body # as) c =
     (let c1 = c\<lparr>posted := posted c @ [fs]\<rparr>;
          c2 = c1\<lparr>write_buf := [], write_counter := write_counter c1 + 1\<rparr>
      in case chan_send \<lparr>node_r = Some body, node_f = zero_frame\<rparr> (respCh c2) of
           None \<Rightarrow> Some (SendSwallowed, c2)
         | Some ch \<Rightarrow> Some (SendDone, c2\<lparr>respCh := ch\<rparr>))"

text \<open>
  \<open>sendWriteBuf\<close>, entered at time \<open>t0\<close>, with \<open>rnd\<close> from \<open>rand.Uint32()\<close> and the
  outcomes \<open>as\<close> of its POSTs.
\<close>

definition sendWriteBuf ::
  "opts \<Rightarrow> ('i::len, 'c::len) ClientConn \<Rightarrow> 'i word \<Rightarrow> time \<Rightarrow> attempt list
     \<Rightarrow> (send_status \<times> ('i, 'c) ClientConn) option" where
  "sendWriteBuf K c rnd t0 as =
     (let ps = pendingSize c * 2;
          c1 = c\<lparr>pendingSize := (if sint ps > 1024 then 1024 else ps)\<rparr>
      in if err (read c1) \<noteq> None then Some (SendAborted, c1)
         else post_loop (t0 + (InactivePurge - Second))
                [\<lparr>idx = rnd, connIdx = cc_idx c1, options = optSyncConnIdx K, data = []\<rparr>,
                 \<lparr>idx = write_counter c1 + 1, connIdx = cc_idx c1, options = 0,
                  data = write_buf c1\<rparr>]
                as c1)"

section \<open>The orchestrator's poll\<close>

text \<open>
  The body of the loop over the frames of a poll response, for a frame \<open>g\<close> that
  parsed and is not the terminator. \<open>conns\<close> maps the identifiers polled to their
  connections. \<open>None\<close> is a panic (the send on \<open>respCh\<close> is not recovered here).
\<close>

definition on_poll_frame ::
  "opts \<Rightarrow> ('c::len word \<rightharpoonup> ('i::len, 'c) ClientConn) \<Rightarrow> ('i, 'c) frame
     \<Rightarrow> ('c word \<rightharpoonup> ('i, 'c) ClientConn) option" where
  "on_poll_frame K conns g =
     (case conns (connIdx g) of
        None \<Rightarrow> Some conns
      | Some c \<Rightarrow>
          if \<not> closed (read c) \<and> err (read c) = None
          then if options g = optClosed K
               then (case feedError ErrPeerClosed (read c) of
                       None \<Rightarrow> None
                     | Some r' \<Rightarrow>
                         (case Close K (c\<lparr>read := r'\<rparr>) of
                            None \<Rightarrow> None
                          | Some c' \<Rightarrow> Some (conns(connIdx g \<mapsto> c'))))
               else (case chan_send \<lparr>node_r = None, node_f = g\<rparr> (respCh c) of
                       None \<Rightarrow> None
                     | Some ch \<Rightarrow> Some (conns(connIdx g \<mapsto> c\<lparr>respCh := ch\<rparr>)))
          else Some conns)"

text \<open>
  The loop itself, over what \<open>parseframe\<close> returns on the response body (\<open>None\<close> for
  \<open>!ok\<close>): it stops at the first failure or terminator.
\<close>

fun poll_frames ::
  "opts \<Rightarrow> ('c::len word \<rightharpoonup> ('i::len, 'c) ClientConn) \<Rightarrow> ('i, 'c) frame option list
     \<Rightarrow> ('c word \<rightharpoonup> ('i, 'c) ClientConn) option" where
  "poll_frames K conns [] = Some conns"
| "poll_frames K conns (None # rest) = Some conns"
| "poll_frames K conns (Some g # rest) =
     (if idx g = 0 then Some conns
      else case on_poll_frame K conns g of
             None \<Rightarrow> None
           | Some conns' \<Rightarrow> poll_frames K conns' rest)"

section \<open>The client connection as a system\<close>

text \<open>
  What can happen to a client connection: the application writes or closes, the tick
  fires, the orchestrator or a goroutine of its own runs \<open>sendWriteBuf\<close>, a drainer
  takes a node from \<open>respCh\<close> (and may clear \<open>lastIsPositive\<close>), or something
  happens to the read side. \<open>sendWriteBuf\<close> runs only for a connection that
  \<open>orchSendWriteBuf\<close> was called on: before that the event changes nothing. A run of
  \<open>sendWriteBuf\<close> is one event, as the write mutex makes it for the writers. \<open>None\<close>
  is a panic, or a \<open>sendWriteBuf\<close> whose POSTs, as given, do not end its loop.
\<close>

datatype ('w, 'f) cevent =
    CWrite "byte list"
  | CClose
  | CTick
  | CSendWriteBuf 'w time "attempt list"
  | CRespRecv bool
  | CReadSide "'f revent"

record (overloaded) ('i, 'c) csys =
  cc :: "('i, 'c) ClientConn"
  cloop_alive :: bool
  cdelivered :: "byte list"

definition read_sys :: "('i::len, 'c::len) csys \<Rightarrow> ('i, 'c) rsys" where
  "read_sys s = \<lparr>rc = read (cc s), loop_alive = cloop_alive s, delivered = cdelivered s\<rparr>"

fun cstep ::
  "opts \<Rightarrow> ('i::len word, ('i, 'c::len) frame) cevent \<Rightarrow> ('i, 'c) csys \<Rightarrow> ('i, 'c) csys option" where
  "cstep K (CWrite p) s =
     (case Write K (cc s) p of None \<Rightarrow> None | Some (r, c') \<Rightarrow> Some (s\<lparr>cc := c'\<rparr>))"
| "cstep K CClose s =
     (case Close K (cc s) of None \<Rightarrow> None | Some c' \<Rightarrow> Some (s\<lparr>cc := c'\<rparr>))"
| "cstep K CTick s =
     (case fire K (cc s) of None \<Rightarrow> None | Some c' \<Rightarrow> Some (s\<lparr>cc := c'\<rparr>))"
| "cstep K (CSendWriteBuf rnd t0 as) s =
     (if flushes (cc s) = 0 then Some s
      else case sendWriteBuf K (cc s) rnd t0 as of
             None \<Rightarrow> None
           | Some (SendPanic, c') \<Rightarrow> None
           | Some (st, c') \<Rightarrow> Some (s\<lparr>cc := c'\<rparr>))"
| "cstep K (CRespRecv z) s =
     (case items (respCh (cc s)) of
        [] \<Rightarrow> Some s
      | x # xs \<Rightarrow>
          Some (s\<lparr>cc := (cc s)\<lparr>respCh := (respCh (cc s))\<lparr>items := xs\<rparr>,
                                 lastIsPositive := (if z then False else lastIsPositive (cc s))\<rparr>\<rparr>))"
| "cstep K (CReadSide ev) s =
     (case rstep ev (read_sys s) of
        None \<Rightarrow> None
      | Some rs \<Rightarrow>
          Some \<lparr>cc = (cc s)\<lparr>read := rc rs\<rparr>, cloop_alive = loop_alive rs,
                cdelivered = delivered rs\<rparr>)"

fun crun ::
  "opts \<Rightarrow> ('i::len word, ('i, 'c::len) frame) cevent list \<Rightarrow> ('i, 'c) csys
     \<Rightarrow> ('i, 'c) csys option" where
  "crun K [] s = Some s"
| "crun K (ev # evs) s = (case cstep K ev s of None \<Rightarrow> None | Some s' \<Rightarrow> crun K evs s')"

definition cinit :: "('i::len, 'c::len) ClientConn \<Rightarrow> ('i, 'c) csys" where
  "cinit c = \<lparr>cc = c, cloop_alive = True, cdelivered = []\<rparr>"

text \<open>A POST that failed no later than the deadline \<open>d\<close>: \<open>sendWriteBuf\<close> tries again.\<close>

fun retryable :: "time \<Rightarrow> attempt \<Rightarrow> bool" where
  "retryable d (PostErr e now) = (now \<le> d)"
| "retryable d (PostOk body) = False"

text \<open>\<open>pendingSize\<close>, a signed 64-bit \<open>int\<close>, lies between 1 and 1024.\<close>

definition ps_ok :: "64 word \<Rightarrow> bool" where
  "ps_ok ps \<longleftrightarrow> 1 \<le> sint ps \<and> sint ps \<le> 1024"

text \<open>
  What holds of a client connection in every reachable state: \<open>respCh\<close> is closed
  exactly when the \<open>sync.Once\<close> has run, which happens only in \<open>Close\<close>, after the read
  side was closed; \<open>pendingSize\<close> is in range; and the read side satisfies its own
  invariant for some set of frames sent.
\<close>

definition conn_inv :: "('i::len, 'c::len) ClientConn \<Rightarrow> bool" where
  "conn_inv c \<longleftrightarrow>
     chan_closed (respCh c) = respChOnce c \<and>
     (respChOnce c \<longrightarrow> closed (read c)) \<and>
     chan_closed (frames (read c)) = closed (read c) \<and>
     ps_ok (pendingSize c)"

definition cs_inv :: "('i::len, 'c::len) csys \<Rightarrow> bool" where
  "cs_inv s \<longleftrightarrow> (\<exists>S. sys_inv S (read_sys s)) \<and> conn_inv (cc s)"

text \<open>
  As long as the tick still holds the callback \<open>newClientConn\<close> scheduled, the
  connection was never handed to the orchestrator and \<open>pendingSize\<close> is 1.
\<close>

definition tick_ok :: "('i::len, 'c::len) ClientConn \<Rightarrow> bool" where
  "tick_ok c \<longleftrightarrow> (write_sched c = Some SchedSending \<longrightarrow> flushes c = 0 \<and> pendingSize c = 1)"

section \<open>Example values\<close>


text \<open>
  Option bits for the examples, one bit each. The connection below is the one
  \<open>Dial("tcp", ":10001")\<close> of the test returns when \<open>newConnectionIdx()\<close> answers 7,
  \<open>rand.Uint32()\<close> answers 5 and the hello POST succeeds.
\<close>

definition opts_example :: opts where
  "opts_example =
     \<lparr>optSyncConnIdx = 1, optSyncCtr = 2, optHello = 4, optClosed = 8, optPing = 16\<rparr>"

definition conn_example :: "(32, 64) ClientConn" where
  "conn_example =
     \<lparr>cc_idx = 7, endpoint = ''http://:10001/'', write_counter = 0,
      write_sched = Some SchedSending, write_buf = [], lastIsPositive = False,
      pendingSize = 1, reschedCount = 0,
      respCh = \<lparr>items = [], chan_closed = False\<rparr>, respChOnce = False,
      read = \<lparr>counter = 0, buf = [], frames = \<lparr>items = [], chan_closed = False\<rparr>,
               futureframes = Map.empty, futureSize = 0, ready = [], err = None,
               blk = Some (AES128, ''tcp0123456789abc''), closed = False, tag = 99,
               rc_idx = 7\<rparr>,
      posted = [[\<lparr>idx = 5, connIdx = 7, options = 1, data = []\<rparr>,
                 \<lparr>idx = 0, connIdx = 7, options = 4, data = []\<rparr>]],
      flushes = 0\<rparr>"

text \<open>A short life of that connection: two writes, two flushes (the first retried once).\<close>

definition evs_example :: "(32 word, (32, 64) frame) cevent list" where
  "evs_example = [CWrite [1, 2, 3], CSendWriteBuf 9 0 [PostErr (ErrCarrier ''timeout'') 15000000000, PostOk []],
      CWrite [4], CSendWriteBuf 11 20000000000 [PostOk []], CRespRecv False]"

text \<open>
  The example connection after a write of three bytes, a \<open>Close\<close>, and then the
  \<open>sendWriteBuf\<close> the write had asked for, whose POST succeeds.
\<close>

definition conn_swallowed_example :: "(32, 64) ClientConn" where
  "conn_swallowed_example =
     conn_example
       \<lparr>write_counter := 1, write_sched := None, write_buf := [], pendingSize := 2,
        reschedCount := 1,
        respCh := \<lparr>items = [], chan_closed = True\<rparr>, respChOnce := True,
        read := (read conn_example)
                  \<lparr>frames := \<lparr>items = [], chan_closed = True\<rparr>,
                   ready := [SetWaitDeadlineNow], closed := True\<rparr>,
        posted := [[\<lparr>idx = 5, connIdx = 7, options = 1, data = []\<rparr>,
                    \<lparr>idx = 0, connIdx = 7, options = 4, data = []\<rparr>],
                   [\<lparr>idx = 0, connIdx = 7, options = 8, data = []\<rparr>],
                   [\<lparr>idx = 9, connIdx = 7, options = 1, data = []\<rparr>,
                    \<lparr>idx = 1, connIdx = 7, options = 0, data = [1, 2, 3]\<rparr>]],
        flushes := 1\<rparr>"

text \<open>
  The example connection after \<open>feedError\<close> of "invalid frames" on its read side
  and a \<open>Close\<close>.
\<close>

definition conn_failed_closed_example :: "(32, 64) ClientConn" where
  "conn_failed_closed_example =
     conn_example
       \<lparr>write_sched := None,
        respCh := \<lparr>items = [], chan_closed = True\<rparr>, respChOnce := True,
        read := (read conn_example)
                  \<lparr>frames := \<lparr>items = [], chan_closed = True\<rparr>,
                   ready := [Touch, SetWaitDeadlineNow], err := Some ErrInvalidFrames,
                   closed := True\<rparr>,
        posted := [[\<lparr>idx = 5, connIdx = 7, options = 1, data = []\<rparr>,
                    \<lparr>idx = 0, connIdx = 7, options = 4, data = []\<rparr>],
                   [\<lparr>idx = 0, connIdx = 7, options = 8, data = []\<rparr>]]\<rparr>"

section \<open>Properties of the read side\<close>

lemma word_succ_unat:
  fixes c k :: "'a::len word"
  assumes "c < k"
  shows "unat (c + 1) = Suc (unat c)"
proof -
  have "unat c < unat k" using assms by (simp add: word_less_nat_alt)
  moreover have "unat k < 2 ^ LENGTH('a)" by simp
  ultimately have "unat c + unat (1::'a word) < 2 ^ LENGTH('a)" by (simp only: unat_1)
  then have "unat (c + 1) = unat c + unat (1::'a word)" by (simp only: unat_add_lem)
  then show ?thesis by simp
qed

lemma word_succ_less:
  fixes c k :: "'a::len word"
  assumes "c < k" "k \<noteq> c + 1"
  shows "c + 1 < k"
  using inc_le [OF assms(1)] assms(2) by (simp add: word_le_less_eq)

lemma close_inv:
  assumes "rc_inv S pre c"
  shows "\<exists>c'. close c = Some c' \<and> rc_inv S pre c' \<and> closed c'"
  using assms by (auto simp: close_def chan_close_def rc_inv_def)

lemma feedError_inv:
  assumes "rc_inv S pre c"
  shows "\<exists>c'. feedError e c = Some c' \<and> rc_inv S pre c' \<and> closed c'"
proof -
  have "rc_inv S pre (c\<lparr>err := Some e, ready := ready c @ [Touch]\<rparr>)"
    using assms by (simp add: rc_inv_def)
  from close_inv [OF this] show ?thesis by (simp add: feedError_def)
qed

lemma drain_inv:
  "rc_inv S pre c \<Longrightarrow>
   \<exists>ctl c'. drain c = Some (ctl, c') \<and> (ctl = Continue \<or> ctl = Return) \<and> rc_inv S pre c'
      \<and> (closed c \<longrightarrow> closed c')"
proof (induction "card (dom (futureframes c))" arbitrary: c rule: less_induct)
  case less
  show ?case
  proof (cases "futureframes c (counter c + 1)")
    case None
    then show ?thesis
      using feedError_inv [OF less.prems, of ErrMissingFrame] less.prems
      by (subst drain.simps) auto
  next
    case (Some f)
    let ?c = "c\<lparr>buf := buf c @ data f, counter := idx f,
                 futureframes := (futureframes c)(idx f := None),
                 futureSize := futureSize c - int (length (data f))\<rparr>"
    from less.prems Some have fi: "idx f = counter c + 1" and lt: "counter c < counter c + 1" and fS: "f \<in> S"
      by (auto simp: rc_inv_def)
    have su: "unat (counter c + 1) = Suc (unat (counter c))"
      by (rule word_succ_unat [OF lt])
    have dom: "dom (futureframes ?c) = dom (futureframes c) - {idx f}" by auto
    have "idx f \<in> dom (futureframes c)" using Some fi by auto
    then have card: "card (dom (futureframes ?c)) < card (dom (futureframes c))"
      unfolding dom by (intro card_Diff1_less) simp_all
    have keys: "\<forall>k g. futureframes ?c k = Some g \<longrightarrow> idx g = k \<and> counter ?c < k \<and> g \<in> S"
    proof (intro allI impI)
      fix k g assume a: "futureframes ?c k = Some g"
      then have kn: "k \<noteq> counter c + 1" and b: "futureframes c k = Some g"
        using fi by (auto split: if_splits)
      from less.prems b have "idx g = k" "counter c < k" "g \<in> S" by (auto simp: rc_inv_def)
      moreover have "counter c + 1 < k" using word_succ_less [OF \<open>counter c < k\<close> kn] .
      ultimately show "idx g = k \<and> counter ?c < k \<and> g \<in> S" using fi by simp
    qed
    from less.prems obtain gs where gs: "pre @ buf c = concat (map data gs)"
      "map (\<lambda>g. unat (idx g)) gs = [1..<Suc (unat (counter c))]" "set gs \<subseteq> S"
      by (auto simp: rc_inv_def)
    have "pre @ buf ?c = concat (map data (gs @ [f]))" using gs(1) by simp
    moreover have "map (\<lambda>g. unat (idx g)) (gs @ [f]) = [1..<Suc (unat (counter ?c))]"
      using gs(2) fi su by simp
    moreover have "set (gs @ [f]) \<subseteq> S" using gs(3) fS by simp
    ultimately have ex: "\<exists>gs. pre @ buf ?c = concat (map data gs) \<and>
           map (\<lambda>g. unat (idx g)) gs = [1..<Suc (unat (counter ?c))] \<and> set gs \<subseteq> S"
      by blast
    have it: "set (items (frames ?c)) \<subseteq> S" "chan_closed (frames ?c) = closed ?c"
      using less.prems by (simp_all add: rc_inv_def)
    have inv: "rc_inv S pre ?c"
      unfolding rc_inv_def by (intro conjI keys ex it)
    have step: "drain c = drain ?c"
      by (subst drain.simps) (simp add: Some)
    from less.hyps [OF card inv] show ?thesis
      unfolding step by simp
  qed
qed


lemma rc_inv_mono: "rc_inv S pre c \<Longrightarrow> S \<subseteq> S' \<Longrightarrow> rc_inv S' pre c"
  unfolding rc_inv_def by blast

lemma on_frame_inv:
  assumes "rc_inv S pre c" "f \<in> S"
  shows "\<exists>ctl c'. on_frame f c = Some (ctl, c') \<and> ctl \<noteq> Panic \<and> rc_inv S pre c'
           \<and> (closed c \<longrightarrow> closed c')"
proof -
  consider (bad) "connIdx f \<noteq> rc_idx c" | (old) "connIdx f = rc_idx c" "idx f \<le> counter c"
    | (new) "connIdx f = rc_idx c" "\<not> idx f \<le> counter c" by blast
  then show ?thesis
  proof cases
    case bad
    then show ?thesis using feedError_inv [OF assms(1), of ErrUnmatchedStreamIndex]
      by (auto simp: on_frame_def)
  next
    case old
    then show ?thesis using assms(1) by (simp add: on_frame_def)
  next
    case new
    let ?c = "c\<lparr>futureframes := (futureframes c)(idx f \<mapsto> f),
                 futureSize := futureSize c + int (length (data f))\<rparr>"
    have "rc_inv S pre ?c"
      using assms new(2) unfolding rc_inv_def by (auto simp: not_le)
    from drain_inv [OF this] obtain ctl c' where
      d: "drain ?c = Some (ctl, c')" "ctl = Continue \<or> ctl = Return" "rc_inv S pre c'"
        "closed c \<longrightarrow> closed c'"
      by auto
    have "rc_inv S pre (c'\<lparr>ready := ready c' @ [Touch]\<rparr>)"
      using d(3) by (simp add: rc_inv_def)
    then show ?thesis using new d by (auto simp: on_frame_def)
  qed
qed

lemma loop_turn_inv:
  assumes "rc_inv S pre c"
  shows "\<exists>ctl c'. loop_turn c = Some (ctl, c') \<and> ctl \<noteq> Panic \<and> rc_inv S pre c'
           \<and> (closed c \<longrightarrow> closed c')"
proof (cases "items (frames c)")
  case Nil
  then show ?thesis using assms by (simp add: loop_turn_def)
next
  case (Cons f fs)
  have "rc_inv S pre (c\<lparr>frames := (frames c)\<lparr>items := fs\<rparr>\<rparr>)" "f \<in> S"
    using assms Cons by (auto simp: rc_inv_def)
  from on_frame_inv [OF this] show ?thesis using Cons by (simp add: loop_turn_def)
qed

lemma Read_inv:
  assumes "rc_inv S pre c" "Read c n t = (r, c')"
  shows "rc_inv S (pre @ (case r of ReadOk bs \<Rightarrow> bs | _ \<Rightarrow> [])) c' \<and> closed c' = closed c"
  using assms by (auto simp: Read_def rc_inv_def split: if_splits option.splits)

lemma rstep_inv:
  assumes "sys_inv S s"
  shows "\<exists>s'. rstep ev s = Some s' \<and> sys_inv (S \<union> sent_frames [ev]) s'
           \<and> (closed (rc s) \<longrightarrow> closed (rc s'))"
proof (cases ev)
  case (Send f)
  then show ?thesis using assms
    by (auto simp: sys_inv_def rc_inv_def chan_send_def sent_frames_def)
next
  case LoopTurn
  from loop_turn_inv [OF assms [unfolded sys_inv_def]] obtain ctl c' where
    "loop_turn (rc s) = Some (ctl, c')" "ctl \<noteq> Panic" "rc_inv S (delivered s) c'"
    "closed (rc s) \<longrightarrow> closed c'" by blast
  then show ?thesis using LoopTurn assms
    by (cases ctl) (auto simp: sys_inv_def sent_frames_def)
next
  case (ReadCall n t)
  obtain r c' where rd: "Read (rc s) n t = (r, c')" by (cases "Read (rc s) n t")
  from Read_inv [OF assms [unfolded sys_inv_def] rd] show ?thesis
    using ReadCall rd by (cases r) (auto simp: sys_inv_def sent_frames_def)
next
  case (FeedError e)
  then show ?thesis using feedError_inv [OF assms [unfolded sys_inv_def], of e]
    by (auto simp: sys_inv_def sent_frames_def)
next
  case CloseRead
  then show ?thesis using close_inv [OF assms [unfolded sys_inv_def]]
    by (auto simp: sys_inv_def sent_frames_def)
qed

lemma rrun_inv:
  "sys_inv S s \<Longrightarrow> \<exists>s'. rrun evs s = Some s' \<and> sys_inv (S \<union> sent_frames evs) s'"
proof (induction evs arbitrary: S s)
  case Nil
  then show ?case by (simp add: sent_frames_def)
next
  case (Cons ev evs)
  from rstep_inv [OF Cons.prems, of ev] obtain s1 where
    s1: "rstep ev s = Some s1" "sys_inv (S \<union> sent_frames [ev]) s1" by blast
  from Cons.IH [OF s1(2)] obtain s' where
    s': "rrun evs s1 = Some s'" "sys_inv (S \<union> sent_frames [ev] \<union> sent_frames evs) s'" by blast
  have "S \<union> sent_frames [ev] \<union> sent_frames evs = S \<union> sent_frames (ev # evs)"
    by (auto simp: sent_frames_def)
  with s1 s' show ?case by simp
qed

lemma rinit_inv: "sys_inv {} (rinit i b t)"
  by (simp add: sys_inv_def rc_inv_def rinit_def newReadConn_def)

subsection \<open>Delivery\<close>









lemma Read_buffered:
  assumes "\<not> closed c" "err c = None" "buf c \<noteq> []"
  shows "Read c n False = (ReadOk (take n (buf c)), c\<lparr>buf := drop n (buf c)\<rparr>)"
  using assms by (simp add: Read_def)














text \<open>
  For instance, frame 2 arriving before frame 1 waits in the map, and the application
  reads the bytes of frame 1 and then those of frame 2.
\<close>

lemma ordered_delivery_example:
  "map_option (\<lambda>s. (delivered s, buf (rc s), counter (rc s), loop_alive s))
     (rrun [Send \<lparr>idx = 2, connIdx = 7, options = 0, data = [98]\<rparr>, LoopTurn,
            ReadCall 10 False,
            Send \<lparr>idx = 1, connIdx = 7, options = 0, data = [97]\<rparr>, LoopTurn,
            ReadCall 10 False]
        (rinit (7::32 word) None 99 :: (64, 32) rsys))
   = Some ([97, 98], [], 2, True)"
  by code_simp

text \<open>
  A frame of this connection whose \<open>idx\<close> is not above the counter makes the
  reassembly goroutine return, with the read side as it was.
\<close>

lemma stale_frame_returns:
  "connIdx g = rc_idx c \<Longrightarrow> idx g \<le> counter c \<Longrightarrow> on_frame g c = Some (Return, c)"
  by (simp add: on_frame_def)

text \<open>
  C2. The claim is that a frame with \<open>idx \<le> counter\<close> is dropped and later frames
  are still delivered. On the source, frame 1, a duplicate of frame 1 and then frame 2
  give this: the first frame is delivered, the duplicate ends the reassembly goroutine,
  and frame 2 stays in the channel for ever, so the application reads one byte where two
  were written. The same holds for the goroutine run on a channel holding the three
  frames.
\<close>

theorem duplicate_frame_ends_reassembly:
  "map_option (\<lambda>s. (delivered s, buf (rc s), counter (rc s), loop_alive s, items (frames (rc s))))
     (rrun [Send \<lparr>idx = 1, connIdx = 7, options = 0, data = [97]\<rparr>, LoopTurn,
            Send \<lparr>idx = 1, connIdx = 7, options = 0, data = [97]\<rparr>, LoopTurn,
            Send \<lparr>idx = 2, connIdx = 7, options = 0, data = [98]\<rparr>, LoopTurn,
            ReadCall 10 False, ReadCall 10 False]
        (rinit (7::32 word) None 99 :: (64, 32) rsys))
   = Some ([97], [], 1, False, [\<lparr>idx = 2, connIdx = 7, options = 0, data = [98]\<rparr>])
   \<and> map_option (\<lambda>(ctl, c). (ctl, buf c, counter c, items (frames c)))
     (readLoopRearrange ((newReadConn (7::32 word) None 99 :: (64, 32) readConn)
        \<lparr>frames := \<lparr>items = [\<lparr>idx = 1, connIdx = 7, options = 0, data = [97]\<rparr>,
            \<lparr>idx = 1, connIdx = 7, options = 0, data = [97]\<rparr>,
            \<lparr>idx = 2, connIdx = 7, options = 0, data = [98]\<rparr>], chan_closed = False\<rparr>\<rparr>))
   = Some (Return, [97], 1, [\<lparr>idx = 2, connIdx = 7, options = 0, data = [98]\<rparr>])"
  by code_simp

text \<open>\<open>feedError\<close> sets the error and closes; a closed read side answers \<open>ErrClosedConn\<close>.\<close>

lemma feedError_closes: "feedError e c = Some c' \<Longrightarrow> closed c' \<and> err c' = Some e"
  by (auto simp: feedError_def close_def chan_close_def split: if_splits)

lemma Read_closed: "closed c \<Longrightarrow> Read c n t = (ReadErr ErrClosedConn, c)"
  by (simp add: Read_def)

text \<open>
  C3. The claim is that after \<open>feedError(e)\<close> every \<open>Read\<close> returns \<open>e\<close>. On the
  source, \<open>Read\<close> tests \<open>closed\<close> before \<open>err\<close>, and \<open>feedError\<close> sets both: after
  \<open>feedError\<close> of the error "invalid frames" on a fresh read side, \<open>Read\<close> returns
  \<open>ErrClosedConn\<close> while \<open>err\<close> holds the error fed.
\<close>

theorem read_after_feedError_reports_closed:
  "map_option (\<lambda>c. (fst (Read c 10 False), err c, closed c))
     (feedError ErrInvalidFrames (newReadConn (7::32 word) None 99 :: (64, 32) readConn))
   = Some (ReadErr ErrClosedConn, Some ErrInvalidFrames, True)"
  by (simp add: feedError_def close_def chan_close_def newReadConn_def Read_def)

text \<open>
  In every reachable state each stored future frame sits under its own \<open>idx\<close>, above
  the counter.
\<close>

lemma future_keys_above_counter:
  assumes "rrun evs (rinit i b t) = Some s" "futureframes (rc s) k = Some g"
  shows "counter (rc s) < k \<and> idx g = k"
proof -
  from rrun_inv [OF rinit_inv, of evs i b t] assms(1)
  have "sys_inv ({} \<union> sent_frames evs) s" by auto
  then show ?thesis using assms(2) by (auto simp: sys_inv_def rc_inv_def)
qed

text \<open>
  C10. The claim is that \<open>futureSize\<close> is the sum of the data lengths of the frames in
  the map. On the source, a future frame that arrives twice is stored once and counted
  twice: after two arrivals of frame 2 (one byte) before frame 1, the map holds the one
  frame, one byte in all, and \<open>futureSize\<close> is 2.
\<close>

theorem futureSize_counts_overwritten_frame_twice:
  "map_option (\<lambda>s. (futureSize (rc s), future_total (rc s), dom (futureframes (rc s))))
     (rrun [Send \<lparr>idx = 2, connIdx = 7, options = 0, data = [98]\<rparr>, LoopTurn,
            Send \<lparr>idx = 2, connIdx = 7, options = 0, data = [98]\<rparr>, LoopTurn]
        (rinit (7::32 word) None 99 :: (64, 32) rsys))
   = Some (2, 1, {2})"
  by (simp add: rinit_def newReadConn_def chan_send_def loop_turn_def on_frame_def drain.simps
        MaxWriteBufferSize_def future_total_def)

section \<open>Properties of the client connection\<close>

text \<open>
  C4. For every network name, \<open>Dial\<close> and \<open>Listen\<close> go through (the slice does not
  panic, \<open>aes.NewCipher\<close> does not fail), and both hold the AES-128 block whose key
  is the first 16 bytes of the name followed by \<open>"0123456789abcdef"\<close>: client and
  server have the same key.
\<close>

theorem cipher_key_derivation:
  "\<exists>c l. (Dial K network address i rnd None :: (error + ('i::len, 'c::len) ClientConn) option) = Some (Inr c)
       \<and> Listen network address' None = Some (Inr l)
       \<and> blk (read c) = Some (AES128, take 16 (network @ ''0123456789abcdef''))
       \<and> l_blk l = blk (read c)"
proof -
  let ?k = "take 16 (network @ ''0123456789abcdef'')"
  have len: "length ?k = 16" by (simp del: take_append)
  have sl: "slice_to 16 (network @ ''0123456789abcdef'') = Some ?k"
    by (simp add: slice_to_def)
  have blk: "block_of (NewCipher ?k) = Some (AES128, ?k)"
    by (simp only: NewCipher_def len block_of_def) simp
  show ?thesis
    by (simp add: Dial_def Listen_def sl blk newClientConn_def newReadConn_def Let_def
          del: take_append)
qed

text \<open>The example connection is what \<open>Dial\<close> returns.\<close>

lemma Dial_example:
  "Dial opts_example ''tcp'' '':10001'' 7 5 None = Some (Inr conn_example)"
  by (simp add: Dial_def slice_to_def NewCipher_def block_of_def newClientConn_def
        newReadConn_def opts_example_def conn_example_def)

lemma double_no_wrap:
  fixes ps :: "64 word"
  assumes "1 \<le> sint ps" "sint ps \<le> 1024"
  shows "sint (ps * 2) = 2 * sint ps"
proof -
  have "sint (ps * 2) = signed_take_bit (LENGTH(64) - 1) (sint ps * sint (2::64 word))"
    by (rule sint_word_ariths)
  also have "sint (2::64 word) = 2" by simp
  also have "signed_take_bit (LENGTH(64) - 1) (sint ps * 2) = sint ps * 2"
    using assms by (intro signed_take_bit_int_eq_self) simp_all
  finally show ?thesis by simp
qed

lemma ps_ok_double:
  assumes "ps_ok ps"
  shows "ps_ok (if sint (ps * 2) > 1024 then 1024 else ps * 2)"
    and "sint (if sint (ps * 2) > 1024 then 1024 else ps * 2) = min (2 * sint ps) 1024"
  using assms double_no_wrap [of ps] by (auto simp: ps_ok_def)

lemma ps_ok_1: "ps_ok 1"
  by (simp add: ps_ok_def)

text \<open>
  C5, as amended. On a connection that is neither closed nor in error: when the write
  buffer holds more than \<open>MaxWriteBufferSize\<close> bytes, \<open>Write\<close> parks the caller and
  changes nothing; otherwise it appends \<open>p\<close> and returns \<open>len(p)\<close>. It returns no
  error in either case.
\<close>

theorem write_backpressure:
  assumes "err (read c) = None" "\<not> closed (read c)"
  shows "(int (length (write_buf c)) > MaxWriteBufferSize \<longrightarrow> Write K c p = Some (WriteParked, c))
       \<and> (int (length (write_buf c)) \<le> MaxWriteBufferSize \<longrightarrow>
            (\<exists>c'. Write K c p = Some (WriteOk (length p), c') \<and> write_buf c' = write_buf c @ p))"
  using assms by (auto simp: Write_def schedSending_def Let_def)

theorem write_backpressure_witness:
  "err (read (conn_example\<lparr>write_buf := replicate 1048577 0\<rparr>)) = None
   \<and> \<not> closed (read (conn_example\<lparr>write_buf := replicate 1048577 0\<rparr>))
   \<and> Write opts_example (conn_example\<lparr>write_buf := replicate 1048577 0\<rparr>) [1]
       = Some (WriteParked, conn_example\<lparr>write_buf := replicate 1048577 0\<rparr>)
   \<and> (\<exists>c'. Write opts_example conn_example [1, 2] = Some (WriteOk 2, c')
          \<and> write_buf c' = [1, 2])"
proof -
  have h: "err (read (conn_example\<lparr>write_buf := replicate 1048577 0\<rparr>)) = None"
    "\<not> closed (read (conn_example\<lparr>write_buf := replicate 1048577 0\<rparr>))"
    by (simp_all add: conn_example_def)
  have big: "int (length (write_buf (conn_example\<lparr>write_buf := replicate 1048577 0\<rparr>))) > MaxWriteBufferSize"
    by (simp add: MaxWriteBufferSize_def)
  have h': "err (read conn_example) = None" "\<not> closed (read conn_example)"
    by (simp_all add: conn_example_def)
  have small: "int (length (write_buf conn_example)) \<le> MaxWriteBufferSize" "write_buf conn_example = []"
    by (simp_all add: MaxWriteBufferSize_def conn_example_def)
  from write_backpressure [OF h, of opts_example "[1]"] big
  have 1: "Write opts_example (conn_example\<lparr>write_buf := replicate 1048577 0\<rparr>) [1]
       = Some (WriteParked, conn_example\<lparr>write_buf := replicate 1048577 0\<rparr>)" by blast
  from write_backpressure [OF h', of opts_example "[1, 2]"] small
  have 2: "\<exists>c'. Write opts_example conn_example [1, 2] = Some (WriteOk 2, c')
          \<and> write_buf c' = [1, 2]" by (simp add: numeral_2_eq_2)
  from h 1 2 show ?thesis by blast
qed

text \<open>
  C5, as stated, fails when the buffer holds exactly \<open>MaxWriteBufferSize\<close> bytes: the
  source tests \<open>len(c.write.buf) > MaxWriteBufferSize\<close>, so the caller is not parked
  and the byte is appended.
\<close>

theorem write_at_bound_counterexample:
  "int (length (write_buf (conn_example\<lparr>write_buf := replicate 1048576 0\<rparr>))) = MaxWriteBufferSize
   \<and> Write opts_example (conn_example\<lparr>write_buf := replicate 1048576 0\<rparr>) [1]
       = Some (WriteOk 1, conn_example\<lparr>write_buf := replicate 1048576 0 @ [1],
                 write_sched := Some ResetSchedSending, reschedCount := 1, flushes := 1\<rparr>)"
  by (simp add: Write_def schedSending_def conn_example_def MaxWriteBufferSize_def Let_def)

subsection \<open>Invariants of the client connection\<close>

lemma close_props:
  assumes "close r = Some r'"
  shows "(\<forall>S pre. rc_inv S pre r \<longrightarrow> rc_inv S pre r') \<and> closed r' \<and> err r' = err r
         \<and> (chan_closed (frames r) = closed r \<longrightarrow> chan_closed (frames r') = closed r')"
  using assms by (auto simp: close_def chan_close_def rc_inv_def split: if_splits)

lemma close_total:
  assumes "chan_closed (frames r) = closed r"
  shows "\<exists>r'. close r = Some r'"
  using assms by (auto simp: close_def chan_close_def)

lemma close_closed: "closed r \<Longrightarrow> close r = Some r"
  by (simp add: close_def)

lemma feedError_props:
  assumes "feedError e r = Some r'"
  shows "(\<forall>S pre. rc_inv S pre r \<longrightarrow> rc_inv S pre r') \<and> closed r' \<and> err r' = Some e
         \<and> (chan_closed (frames r) = closed r \<longrightarrow> chan_closed (frames r') = closed r')"
proof -
  have "\<forall>S pre. rc_inv S pre r \<longrightarrow> rc_inv S pre (r\<lparr>err := Some e, ready := ready r @ [Touch]\<rparr>)"
    by (simp add: rc_inv_def)
  with close_props [OF assms [unfolded feedError_def]] show ?thesis by simp
qed

lemma feedError_total:
  assumes "chan_closed (frames r) = closed r"
  shows "\<exists>r'. feedError e r = Some r'"
  using assms unfolding feedError_def by (intro close_total) simp

lemma Close_props:
  assumes "conn_inv c"
  shows "\<exists>c'. Close K c = Some c' \<and> conn_inv c'
           \<and> (\<forall>S pre. rc_inv S pre (read c) \<longrightarrow> rc_inv S pre (read c'))
           \<and> closed (read c') \<and> err (read c') = err (read c)
           \<and> write_buf c' = write_buf c \<and> write_counter c' = write_counter c
           \<and> pendingSize c' = pendingSize c"
proof -
  from assms have "chan_closed (frames (read c)) = closed (read c)" by (simp add: conn_inv_def)
  from close_total [OF this] obtain r' where r': "close (read c) = Some r'" by blast
  note p = close_props [OF r']
  show ?thesis
  proof (cases "respChOnce c")
    case True
    then show ?thesis using r' p assms by (simp add: Close_def conn_inv_def)
  next
    case False
    then show ?thesis using r' p assms by (simp add: Close_def conn_inv_def chan_close_def)
  qed
qed

lemma Close_closed:
  assumes "closed (read c)" "respChOnce c" "write_sched c = None"
  shows "Close K c = Some c"
  using assms by (simp add: Close_def close_closed)

lemma schedSending_props:
  assumes "conn_inv c"
  shows "\<exists>c'. schedSending K c = Some c' \<and> conn_inv c'
           \<and> (\<forall>S pre. rc_inv S pre (read c) \<longrightarrow> rc_inv S pre (read c'))
           \<and> (closed (read c) \<longrightarrow> closed (read c'))
           \<and> write_buf c' = write_buf c \<and> pendingSize c' = pendingSize c"
proof -
  let ?c1 = "c\<lparr>reschedCount := reschedCount c + 1\<rparr>"
  have i1: "conn_inv ?c1" using assms by (simp add: conn_inv_def)
  show ?thesis
  proof (cases "err (read c) \<noteq> None \<or> closed (read c)")
    case True
    with Close_props [OF i1, of K] show ?thesis by (auto simp: schedSending_def Let_def)
  next
    case False
    then show ?thesis using assms by (simp add: schedSending_def Let_def conn_inv_def)
  qed
qed

lemma Write_props:
  assumes "conn_inv c"
  shows "\<exists>r c'. Write K c p = Some (r, c') \<and> conn_inv c'
           \<and> (\<forall>S pre. rc_inv S pre (read c) \<longrightarrow> rc_inv S pre (read c'))
           \<and> (closed (read c) \<longrightarrow> closed (read c'))"
proof -
  let ?c1 = "c\<lparr>write_sched := Some ResetSchedSending, write_buf := write_buf c @ p\<rparr>"
  have i1: "conn_inv ?c1" using assms by (simp add: conn_inv_def)
  from schedSending_props [OF i1, of K] obtain c2 where
    "schedSending K ?c1 = Some c2" "conn_inv c2"
    "\<forall>S pre. rc_inv S pre (read c) \<longrightarrow> rc_inv S pre (read c2)"
    "closed (read c) \<longrightarrow> closed (read c2)" by auto
  then show ?thesis using assms i1
    by (auto simp: Write_def Let_def split: option.splits)
qed

lemma fire_props:
  assumes "conn_inv c"
  shows "\<exists>c'. fire K c = Some c' \<and> conn_inv c'
           \<and> (\<forall>S pre. rc_inv S pre (read c) \<longrightarrow> rc_inv S pre (read c'))
           \<and> (closed (read c) \<longrightarrow> closed (read c'))"
proof (cases "write_sched c")
  case None
  then show ?thesis using assms by (simp add: fire_def)
next
  case (Some cb)
  have i1: "conn_inv (c\<lparr>write_sched := None\<rparr>)" using assms by (simp add: conn_inv_def)
  have i2: "conn_inv (c\<lparr>write_sched := None, pendingSize := 1\<rparr>)"
    using assms by (simp add: conn_inv_def ps_ok_1)
  show ?thesis
  proof (cases cb)
    case SchedSending
    with Some schedSending_props [OF i1, of K] show ?thesis by (auto simp: fire_def)
  next
    case ResetSchedSending
    with Some schedSending_props [OF i2, of K] show ?thesis by (auto simp: fire_def)
  qed
qed

lemma post_loop_props:
  assumes "conn_inv c" "post_loop d fs as c = Some (st, c')"
  shows "st \<noteq> SendPanic \<and> st \<noteq> SendAborted \<and> conn_inv c'
           \<and> (\<forall>S pre. rc_inv S pre (read c) \<longrightarrow> rc_inv S pre (read c'))
           \<and> (closed (read c) \<longrightarrow> closed (read c'))
           \<and> pendingSize c' = pendingSize c"
  using assms
proof (induction d fs as c rule: post_loop.induct)
  case (1 d fs c)
  then show ?case by simp
next
  case (2 d fs e now as c)
  let ?c1 = "c\<lparr>posted := posted c @ [fs]\<rparr>"
  have i1: "conn_inv ?c1" using 2(2) by (simp add: conn_inv_def)
  show ?case
  proof (cases "now > d")
    case True
    from i1 have "chan_closed (frames (read ?c1)) = closed (read ?c1)" by (simp add: conn_inv_def)
    from feedError_total [OF this, of e] obtain r' where r': "feedError e (read ?c1) = Some r'"
      by blast
    note p = feedError_props [OF r']
    from 2(3) True r' have "st = SendFailed" "c' = ?c1\<lparr>read := r'\<rparr>" by (simp_all add: Let_def)
    then show ?thesis using p i1 by (simp add: conn_inv_def)
  next
    case False
    with 2(3) have "post_loop d fs as ?c1 = Some (st, c')" by (simp add: Let_def)
    from 2(1) [OF refl False i1 this] show ?thesis by simp
  qed
next
  case (3 d fs body as c)
  then show ?case
    by (auto simp: Let_def chan_send_def conn_inv_def split: if_splits)
qed

lemma sendWriteBuf_props:
  assumes "conn_inv c" "sendWriteBuf K c rnd t0 as = Some (st, c')"
  shows "st \<noteq> SendPanic \<and> conn_inv c'
           \<and> (\<forall>S pre. rc_inv S pre (read c) \<longrightarrow> rc_inv S pre (read c'))
           \<and> (closed (read c) \<longrightarrow> closed (read c'))
           \<and> sint (pendingSize c') = min (2 * sint (pendingSize c)) 1024"
proof -
  let ?ps = "if sint (pendingSize c * 2) > 1024 then 1024 else pendingSize c * 2"
  let ?c1 = "c\<lparr>pendingSize := ?ps\<rparr>"
  from assms(1) have ok: "ps_ok (pendingSize c)" by (simp add: conn_inv_def)
  have i1: "conn_inv ?c1" using assms(1) ps_ok_double(1) [OF ok] by (simp add: conn_inv_def)
  have v: "sint (pendingSize ?c1) = min (2 * sint (pendingSize c)) 1024"
    using ps_ok_double(2) [OF ok] by simp
  show ?thesis
  proof (cases "err (read c) \<noteq> None")
    case True
    with assms(2) have "st = SendAborted" "c' = ?c1" by (simp_all add: sendWriteBuf_def Let_def)
    then show ?thesis using i1 v by simp
  next
    case False
    with assms(2) obtain d fs where "post_loop d fs as ?c1 = Some (st, c')"
      by (simp add: sendWriteBuf_def Let_def)
    from post_loop_props [OF i1 this] v show ?thesis by simp
  qed
qed

lemma cs_inv_update:
  assumes "cs_inv s" "conn_inv c'"
    "\<forall>S pre. rc_inv S pre (read (cc s)) \<longrightarrow> rc_inv S pre (read c')"
  shows "cs_inv (s\<lparr>cc := c'\<rparr>)"
proof -
  from assms(1) obtain S where "rc_inv S (cdelivered s) (read (cc s))"
    by (auto simp: cs_inv_def sys_inv_def read_sys_def)
  with assms(3) have "rc_inv S (cdelivered s) (read c')" by blast
  then have "sys_inv S (read_sys (s\<lparr>cc := c'\<rparr>))" by (simp add: sys_inv_def read_sys_def)
  with assms(2) show ?thesis unfolding cs_inv_def by auto
qed

lemma cstep_inv:
  assumes "cs_inv s" "cstep K ev s = Some s'"
  shows "cs_inv s' \<and> (closed (read (cc s)) \<longrightarrow> closed (read (cc s')))"
proof -
  from assms(1) obtain S where S: "rc_inv S (cdelivered s) (read (cc s))" and ci: "conn_inv (cc s)"
    by (auto simp: cs_inv_def sys_inv_def read_sys_def)
  show ?thesis
  proof (cases ev)
    case (CWrite p)
    from Write_props [OF ci, of K p] assms(2) CWrite show ?thesis
      by (auto intro: cs_inv_update [OF assms(1)])
  next
    case CClose
    from Close_props [OF ci, of K] assms(2) CClose show ?thesis
      by (auto intro: cs_inv_update [OF assms(1)])
  next
    case CTick
    from fire_props [OF ci, of K] assms(2) CTick show ?thesis
      by (auto intro: cs_inv_update [OF assms(1)])
  next
    case (CSendWriteBuf rnd t0 as)
    show ?thesis
    proof (cases "flushes (cc s) = 0")
      case True
      with assms CSendWriteBuf show ?thesis by simp
    next
      case False
      with assms(2) CSendWriteBuf obtain st c' where
        r: "sendWriteBuf K (cc s) rnd t0 as = Some (st, c')" and s': "s' = s\<lparr>cc := c'\<rparr>"
        by (auto split: option.splits send_status.splits)
      from sendWriteBuf_props [OF ci r] s' show ?thesis
        by (auto intro: cs_inv_update [OF assms(1)])
    qed
  next
    case (CRespRecv z)
    show ?thesis
    proof (cases "items (respCh (cc s))")
      case Nil
      with assms CRespRecv show ?thesis by simp
    next
      case (Cons x xs)
      let ?c = "(cc s)\<lparr>respCh := (respCh (cc s))\<lparr>items := xs\<rparr>,
                  lastIsPositive := (if z then False else lastIsPositive (cc s))\<rparr>"
      have "conn_inv ?c" using ci by (simp add: conn_inv_def)
      moreover from assms(2) CRespRecv Cons have "s' = s\<lparr>cc := ?c\<rparr>" by simp
      ultimately show ?thesis using cs_inv_update [OF assms(1), of ?c] by simp
    qed
  next
    case (CReadSide rev)
    have "sys_inv S (read_sys s)" using S by (simp add: sys_inv_def read_sys_def)
    from rstep_inv [OF this, of rev] obtain rs where
      rs: "rstep rev (read_sys s) = Some rs" "sys_inv (S \<union> sent_frames [rev]) rs"
        "closed (rc (read_sys s)) \<longrightarrow> closed (rc rs)" by blast
    from rs(1) assms(2) CReadSide have s': "s' = \<lparr>cc = (cc s)\<lparr>read := rc rs\<rparr>,
        cloop_alive = loop_alive rs, cdelivered = delivered rs\<rparr>" by simp
    have "chan_closed (frames (rc rs)) = closed (rc rs)"
      using rs(2) by (simp add: sys_inv_def rc_inv_def)
    moreover have "sys_inv (S \<union> sent_frames [rev]) (read_sys s')"
      using rs(2) s' by (simp add: sys_inv_def read_sys_def)
    ultimately show ?thesis using ci rs(3) s'
      by (auto simp: cs_inv_def conn_inv_def read_sys_def)
  qed
qed

lemma crun_inv:
  "cs_inv s \<Longrightarrow> crun K evs s = Some s' \<Longrightarrow>
     cs_inv s' \<and> (closed (read (cc s)) \<longrightarrow> closed (read (cc s')))"
proof (induction evs arbitrary: s)
  case Nil
  then show ?case by simp
next
  case (Cons ev evs)
  from Cons.prems(2) obtain s1 where s1: "cstep K ev s = Some s1" "crun K evs s1 = Some s'"
    by (auto split: option.splits)
  from cstep_inv [OF Cons.prems(1) s1(1)] Cons.IH [OF _ s1(2)] show ?case by blast
qed

lemma newClientConn_inv:
  assumes "newClientConn K ep b i rnd hello = Inr c"
  shows "cs_inv \<lparr>cc = c, cloop_alive = a, cdelivered = []\<rparr> \<and> pendingSize c = 1"
proof -
  from assms have c: "c = \<lparr>cc_idx = i, endpoint = ep, write_counter = 0, write_sched = Some SchedSending,
                write_buf = [], lastIsPositive = False, pendingSize = 1, reschedCount = 0,
                respCh = \<lparr>items = [], chan_closed = False\<rparr>, respChOnce = False,
                read = newReadConn i b 99,
                posted = [[\<lparr>idx = rnd, connIdx = i, options = optSyncConnIdx K, data = []\<rparr>,
                           \<lparr>idx = 0, connIdx = i, options = optHello K, data = []\<rparr>]],
                flushes = 0\<rparr>"
    by (auto simp: newClientConn_def Let_def split: option.splits)
  have "rc_inv {} [] (newReadConn i b 99 :: ('a, 'b) readConn)"
    by (simp add: rc_inv_def newReadConn_def)
  then show ?thesis unfolding c
    by (auto simp: cs_inv_def sys_inv_def read_sys_def conn_inv_def ps_ok_1 newReadConn_def)
qed


lemma cinit_inv:
  assumes "newClientConn K ep b i rnd hello = Inr c"
  shows "cs_inv (cinit c)"
  using newClientConn_inv [OF assms, of True] by (simp add: cinit_def)

lemma Close_sched: "Close K c = Some c' \<Longrightarrow> write_sched c' = None"
  by (auto simp: Close_def Let_def split: option.splits if_splits)

lemma schedSending_sched:
  "schedSending K c = Some c' \<Longrightarrow> write_sched c' \<noteq> Some SchedSending"
  by (auto simp: schedSending_def Let_def dest: Close_sched split: if_splits)

lemma Write_sched:
  "Write K c p = Some (r, c') \<Longrightarrow> c' = c \<or> write_sched c' \<noteq> Some SchedSending"
  by (auto simp: Write_def Let_def dest: schedSending_sched split: option.splits if_splits)

lemma fire_sched: "fire K c = Some c' \<Longrightarrow> write_sched c' \<noteq> Some SchedSending"
  by (auto simp: fire_def dest: schedSending_sched split: option.splits tick.splits)

lemma post_loop_sched:
  "post_loop d fs as c = Some (st, c') \<Longrightarrow>
     write_sched c' = write_sched c \<and> flushes c' = flushes c"
proof (induction d fs as c rule: post_loop.induct)
  case (1 d fs c)
  then show ?case by simp
next
  case (2 d fs e now as c)
  then show ?case by (auto simp: Let_def split: if_splits option.splits)
next
  case (3 d fs body as c)
  then show ?case by (auto simp: Let_def split: option.splits)
qed

lemma sendWriteBuf_sched:
  "sendWriteBuf K c rnd t0 as = Some (st, c') \<Longrightarrow>
     write_sched c' = write_sched c \<and> flushes c' = flushes c"
  by (auto simp: sendWriteBuf_def Let_def dest: post_loop_sched split: if_splits)

lemma cstep_tick:
  assumes "tick_ok (cc s)" "cstep K ev s = Some s'"
  shows "tick_ok (cc s')"
proof (cases ev)
  case (CWrite p)
  with assms show ?thesis
    by (auto simp: tick_ok_def dest: Write_sched split: option.splits)
next
  case CClose
  with assms show ?thesis by (auto simp: tick_ok_def dest: Close_sched split: option.splits)
next
  case CTick
  with assms show ?thesis by (auto simp: tick_ok_def dest: fire_sched split: option.splits)
next
  case (CSendWriteBuf rnd t0 as)
  show ?thesis
  proof (cases "flushes (cc s) = 0")
    case True
    with assms CSendWriteBuf show ?thesis by simp
  next
    case False
    with assms(2) CSendWriteBuf obtain st c' where
      r: "sendWriteBuf K (cc s) rnd t0 as = Some (st, c')" and s': "s' = s\<lparr>cc := c'\<rparr>"
      by (auto split: option.splits send_status.splits)
    from sendWriteBuf_sched [OF r] False assms(1) s' show ?thesis by (simp add: tick_ok_def)
  qed
next
  case (CRespRecv z)
  with assms show ?thesis by (auto simp: tick_ok_def split: list.splits)
next
  case (CReadSide rev)
  with assms show ?thesis by (auto simp: tick_ok_def split: option.splits)
qed

lemma crun_tick: "tick_ok (cc s) \<Longrightarrow> crun K evs s = Some s' \<Longrightarrow> tick_ok (cc s')"
proof (induction evs arbitrary: s)
  case Nil
  then show ?case by simp
next
  case (Cons ev evs)
  from Cons.prems(2) obtain s1 where s1: "cstep K ev s = Some s1" "crun K evs s1 = Some s'"
    by (auto split: option.splits)
  from Cons.IH [OF cstep_tick [OF Cons.prems(1) s1(1)] s1(2)] show ?case .
qed

lemma fire_pendingSize:
  assumes "conn_inv c" "tick_ok c" "write_sched c \<noteq> None" "fire K c = Some c'"
  shows "pendingSize c' = 1"
proof -
  from assms(3) obtain cb where cb: "write_sched c = Some cb" by blast
  have i1: "conn_inv (c\<lparr>write_sched := None\<rparr>)" using assms(1) by (simp add: conn_inv_def)
  have i2: "conn_inv (c\<lparr>write_sched := None, pendingSize := 1\<rparr>)"
    using assms(1) by (simp add: conn_inv_def ps_ok_1)
  show ?thesis
  proof (cases cb)
    case SchedSending
    with cb assms(2) have "pendingSize c = 1" by (simp add: tick_ok_def)
    with schedSending_props [OF i1, of K] assms(4) cb SchedSending show ?thesis
      by (auto simp: fire_def)
  next
    case ResetSchedSending
    with schedSending_props [OF i2, of K] assms(4) cb show ?thesis
      by (auto simp: fire_def)
  qed
qed

text \<open>A \<open>sendWriteBuf\<close> whose first POST succeeds returns.\<close>

lemma sendWriteBuf_PostOk_returns:
  "\<exists>st c'. sendWriteBuf K c rnd t0 (PostOk body # as) = Some (st, c')"
  by (simp add: sendWriteBuf_def Let_def split: option.splits)

text \<open>
  C6. From creation on, through any writes, closes, ticks, flushes, drains and
  read-side events: \<open>pendingSize\<close> starts at 1 and stays between 1 and 1024; a
  \<open>sendWriteBuf\<close> leaves the double of it, capped at 1024; and a tick that fires leaves 1.
\<close>

theorem pendingSize_in_range:
  assumes "newClientConn K ep b i rnd hello = Inr c" "crun K evs (cinit c) = Some s"
  shows "pendingSize c = 1
       \<and> 1 \<le> sint (pendingSize (cc s)) \<and> sint (pendingSize (cc s)) \<le> 1024
       \<and> (\<forall>r t0 as st c'. sendWriteBuf K (cc s) r t0 as = Some (st, c') \<longrightarrow>
             sint (pendingSize c') = min (2 * sint (pendingSize (cc s))) 1024)
       \<and> (\<forall>c'. write_sched (cc s) \<noteq> None \<longrightarrow> fire K (cc s) = Some c' \<longrightarrow> pendingSize c' = 1)"
proof -
  from newClientConn_inv [OF assms(1)] have p1: "pendingSize c = 1" by simp
  from assms(1) have t0: "tick_ok (cc (cinit c))"
    by (auto simp: newClientConn_def Let_def cinit_def tick_ok_def split: option.splits)
  from crun_inv [OF cinit_inv [OF assms(1)] assms(2)] have ci: "conn_inv (cc s)"
    by (simp add: cs_inv_def)
  from crun_tick [OF t0 assms(2)] have tk: "tick_ok (cc s)" .
  from ci have "1 \<le> sint (pendingSize (cc s)) \<and> sint (pendingSize (cc s)) \<le> 1024"
    by (simp add: conn_inv_def ps_ok_def)
  moreover have "\<forall>r t0 as st c'. sendWriteBuf K (cc s) r t0 as = Some (st, c') \<longrightarrow>
             sint (pendingSize c') = min (2 * sint (pendingSize (cc s))) 1024"
    using sendWriteBuf_props [OF ci] by blast
  moreover have "\<forall>c'. write_sched (cc s) \<noteq> None \<longrightarrow> fire K (cc s) = Some c' \<longrightarrow> pendingSize c' = 1"
    using fire_pendingSize [OF ci tk] by blast
  ultimately show ?thesis using p1 by blast
qed

theorem pendingSize_in_range_witness:
  "\<exists>s. newClientConn opts_example ''http://:10001/'' (Some (AES128, ''tcp0123456789abc'')) 7 5 None
          = Inr conn_example
      \<and> crun opts_example evs_example (cinit conn_example) = Some s
      \<and> pendingSize (cc s) = 4
      \<and> 1 \<le> sint (pendingSize (cc s)) \<and> sint (pendingSize (cc s)) \<le> 1024
      \<and> (\<exists>st c'. sendWriteBuf opts_example (cc s) 13 0 [PostOk []] = Some (st, c')
             \<and> sint (pendingSize c') = 8)
      \<and> (\<exists>c'. write_sched (cc s) \<noteq> None \<and> fire opts_example (cc s) = Some c'
             \<and> pendingSize c' = 1)"
proof -
  have h1: "newClientConn opts_example ''http://:10001/'' (Some (AES128, ''tcp0123456789abc'')) 7 5 None
          = Inr conn_example"
    by (simp add: newClientConn_def newReadConn_def opts_example_def conn_example_def)
  have "map_option (\<lambda>s. (pendingSize (cc s), write_sched (cc s)))
          (crun opts_example evs_example (cinit conn_example)) = Some (4, Some ResetSchedSending)"
    by code_simp
  then obtain s where h2: "crun opts_example evs_example (cinit conn_example) = Some s"
    and v: "pendingSize (cc s) = 4" "write_sched (cc s) = Some ResetSchedSending" by auto
  note t = pendingSize_in_range [OF h1 h2]
  from crun_inv [OF cinit_inv [OF h1] h2] have ci: "conn_inv (cc s)" by (simp add: cs_inv_def)
  from sendWriteBuf_PostOk_returns obtain st c' where
    sw: "sendWriteBuf opts_example (cc s) 13 0 [PostOk []] = Some (st, c')" by blast
  with t v have "sint (pendingSize c') = 8" by fastforce
  with sw have a: "\<exists>st c'. sendWriteBuf opts_example (cc s) 13 0 [PostOk []] = Some (st, c')
             \<and> sint (pendingSize c') = 8" by blast
  from fire_props [OF ci, of opts_example] obtain c'' where
    f: "fire opts_example (cc s) = Some c''" by blast
  with t v have "pendingSize c'' = 1" by simp
  with f v have b: "\<exists>c'. write_sched (cc s) \<noteq> None \<and> fire opts_example (cc s) = Some c'
             \<and> pendingSize c' = 1" by simp
  from t h1 h2 v a b show ?thesis by blast
qed

text \<open>POSTs that fail before the deadline are tried again, each one a POST of the same chain.\<close>

lemma post_loop_retry:
  "list_all (retryable d) pre \<Longrightarrow>
     post_loop d fs (pre @ as) c
       = post_loop d fs as (c\<lparr>posted := posted c @ replicate (length pre) fs\<rparr>)"
proof (induction pre arbitrary: c)
  case Nil
  then show ?case by simp
next
  case (Cons a pre)
  then obtain e now where a: "a = PostErr e now" "now \<le> d" by (cases a) auto
  from Cons have "list_all (retryable d) pre" by simp
  from Cons.IH [OF this, of "c\<lparr>posted := posted c @ [fs]\<rparr>"] a show ?case
    by (simp add: Let_def replicate_append_same)
qed

text \<open>
  C7, as amended. \<open>sendWriteBuf\<close> on a connection without a sticky error, after any
  number of POSTs that failed no later than \<open>InactivePurge - 1s\<close> after entry: a POST
  that fails later than that ends it, with the error fed to the read side (which is
  then closed) and the write buffer, the counter and \<open>respCh\<close> as they were; a POST
  that succeeds ends it with the buffer empty and the counter incremented by one
  (wrapping at the width of the counter), and with the response body appended to
  \<open>respCh\<close>, unless \<open>respCh\<close> is closed: then the send is swallowed and \<open>respCh\<close>
  is as it was. Every attempt was one POST.
\<close>

theorem sendWriteBuf_retry_outcome:
  assumes "err (read c) = None"
      and "chan_closed (frames (read c)) = closed (read c)"
      and "list_all (retryable (t0 + (InactivePurge - Second))) pre"
  shows "(now > t0 + (InactivePurge - Second) \<longrightarrow>
           (\<exists>c'. sendWriteBuf K c rnd t0 (pre @ PostErr e now # rest) = Some (SendFailed, c')
               \<and> err (read c') = Some e \<and> closed (read c')
               \<and> write_buf c' = write_buf c \<and> write_counter c' = write_counter c
               \<and> respCh c' = respCh c
               \<and> length (posted c') = length (posted c) + length pre + 1))
       \<and> (\<exists>st c'. sendWriteBuf K c rnd t0 (pre @ PostOk body # rest) = Some (st, c')
               \<and> write_buf c' = [] \<and> write_counter c' = write_counter c + 1
               \<and> length (posted c') = length (posted c) + length pre + 1
               \<and> (if chan_closed (respCh c)
                  then st = SendSwallowed \<and> respCh c' = respCh c
                  else st = SendDone \<and>
                       respCh c' = (respCh c)\<lparr>items := items (respCh c) @
                                     [\<lparr>node_r = Some body, node_f = zero_frame\<rparr>]\<rparr>))"
proof -
  let ?d = "t0 + (InactivePurge - Second)"
  let ?ps = "if sint (pendingSize c * 2) > 1024 then 1024 else pendingSize c * 2"
  let ?c1 = "c\<lparr>pendingSize := ?ps\<rparr>"
  let ?fs = "[\<lparr>idx = rnd, connIdx = cc_idx ?c1, options = optSyncConnIdx K, data = []\<rparr>,
              \<lparr>idx = write_counter ?c1 + 1, connIdx = cc_idx ?c1, options = 0,
               data = write_buf ?c1\<rparr>]"
  let ?c2 = "?c1\<lparr>posted := posted ?c1 @ replicate (length pre) ?fs\<rparr>"
  have unf: "\<And>as. sendWriteBuf K c rnd t0 (pre @ as) = post_loop ?d ?fs as ?c2"
    using assms(1) post_loop_retry [OF assms(3), of ?fs _ ?c1]
    by (simp add: sendWriteBuf_def Let_def)
  have fail: "\<exists>c'. sendWriteBuf K c rnd t0 (pre @ PostErr e now # rest) = Some (SendFailed, c')
               \<and> err (read c') = Some e \<and> closed (read c')
               \<and> write_buf c' = write_buf c \<and> write_counter c' = write_counter c
               \<and> respCh c' = respCh c
               \<and> length (posted c') = length (posted c) + length pre + 1" if late: "now > ?d"
  proof -
    have "chan_closed (frames (read c)) = closed (read c)" by (rule assms(2))
    from feedError_total [OF this, of e] obtain r' where r': "feedError e (read c) = Some r'"
      by blast
    from feedError_props [OF r'] have "err r' = Some e" "closed r'" by simp_all
    then show ?thesis using late r' unfolding unf by (simp add: Let_def)
  qed
  have ok: "\<exists>st c'. sendWriteBuf K c rnd t0 (pre @ PostOk body # rest) = Some (st, c')
               \<and> write_buf c' = [] \<and> write_counter c' = write_counter c + 1
               \<and> length (posted c') = length (posted c) + length pre + 1
               \<and> (if chan_closed (respCh c)
                  then st = SendSwallowed \<and> respCh c' = respCh c
                  else st = SendDone \<and>
                       respCh c' = (respCh c)\<lparr>items := items (respCh c) @
                                     [\<lparr>node_r = Some body, node_f = zero_frame\<rparr>]\<rparr>)"
    unfolding unf by (simp add: Let_def chan_send_def)
  from fail ok show ?thesis by blast
qed

theorem sendWriteBuf_retry_outcome_witness:
  "err (read (conn_example\<lparr>write_buf := [1, 2, 3]\<rparr>)) = None
   \<and> chan_closed (frames (read (conn_example\<lparr>write_buf := [1, 2, 3]\<rparr>)))
       = closed (read (conn_example\<lparr>write_buf := [1, 2, 3]\<rparr>))
   \<and> list_all (retryable (0 + (InactivePurge - Second))) [PostErr (ErrCarrier ''refused'') 15000000000]
   \<and> (\<exists>c'. sendWriteBuf opts_example (conn_example\<lparr>write_buf := [1, 2, 3]\<rparr>) 9 0
              ([PostErr (ErrCarrier ''refused'') 15000000000] @
                PostErr (ErrCarrier ''timeout'') 60000000000 # [])
            = Some (SendFailed, c')
          \<and> err (read c') = Some (ErrCarrier ''timeout'') \<and> write_buf c' = [1, 2, 3]
          \<and> write_counter c' = 0)
   \<and> (\<exists>st c'. sendWriteBuf opts_example (conn_example\<lparr>write_buf := [1, 2, 3]\<rparr>) 9 0
              ([PostErr (ErrCarrier ''refused'') 15000000000] @ PostOk [42] # [])
            = Some (st, c')
          \<and> write_buf c' = [] \<and> write_counter c' = 1
          \<and> items (respCh c') = [\<lparr>node_r = Some [42], node_f = zero_frame\<rparr>])"
proof -
  let ?c = "conn_example\<lparr>write_buf := [1, 2, 3]\<rparr>"
  have h1: "err (read ?c) = None" by (simp add: conn_example_def)
  have h2: "chan_closed (frames (read ?c)) = closed (read ?c)" by (simp add: conn_example_def)
  have h3: "list_all (retryable (0 + (InactivePurge - Second))) [PostErr (ErrCarrier ''refused'') 15000000000]"
    by (simp add: InactivePurge_def Second_def)
  have late: "(60000000000::int) > 0 + (InactivePurge - Second)"
    by (simp add: InactivePurge_def Second_def)
  have c: "\<not> chan_closed (respCh ?c)" "items (respCh ?c) = []" "write_buf ?c = [1, 2, 3]"
    "write_counter ?c = 0"
    by (simp_all add: conn_example_def)
  from sendWriteBuf_retry_outcome [OF h1 h2 h3, of 60000000000 opts_example 9
      "ErrCarrier ''timeout''" "[]" "[42]"] late c h1 h2 h3
  show ?thesis by auto
qed

text \<open>
  C7, as stated, fails on a closed connection: after a write, a \<open>Close\<close> and the
  \<open>sendWriteBuf\<close> the write had asked for, the POST has succeeded, the buffer is
  empty, the counter is 1, and the response body is not on \<open>respCh\<close>.
\<close>

theorem sendWriteBuf_closed_respCh_counterexample:
  "crun opts_example [CWrite [1, 2, 3], CClose, CSendWriteBuf 9 0 [PostOk [42]]]
       (cinit conn_example) = Some (cinit conn_swallowed_example)
   \<and> write_buf conn_swallowed_example = []
   \<and> write_counter conn_swallowed_example = 1
   \<and> items (respCh conn_swallowed_example) = []"
  by (simp add: cinit_def conn_example_def conn_swallowed_example_def opts_example_def
        Write_def schedSending_def Close_def close_def chan_close_def chan_send_def
        sendWriteBuf_def InactivePurge_def Second_def zero_frame_def Let_def
        MaxWriteBufferSize_def)

text \<open>After a \<open>Close\<close> a further \<open>Close\<close> changes nothing.\<close>

lemma Close_once:
  assumes "Close K c = Some c'"
  shows "respChOnce c' \<and> closed (read c') \<and> write_sched c' = None"
  using assms
  by (auto simp: Close_def Let_def dest: close_props split: option.splits if_splits)

lemma Close_again:
  assumes "Close K c = Some c1"
  shows "Close_times K n c1 = Some c1"
proof (induction n)
  case 0
  show ?case by simp
next
  case (Suc n)
  from Close_once [OF assms] have "Close K c1 = Some c1" by (simp add: Close_closed)
  with Suc show ?case by simp
qed

text \<open>
  C8, as amended. In every state a client connection can reach, \<open>Close\<close> goes
  through, and any number of further calls leaves the connection as the first did.
  From then on, whatever happens, the read side stays closed; as long as it has no
  sticky error, \<open>Read\<close> and \<open>Write\<close> return \<open>ErrClosedConn\<close>, and so does a
  \<open>Read\<close> that was parked and wakes up; and once the read side has a sticky error,
  \<open>Write\<close> returns that error.
\<close>

theorem Close_idempotent:
  assumes "newClientConn K ep b i rnd hello = Inr c0" "crun K evs0 (cinit c0) = Some s"
  shows "\<exists>c1. Close K (cc s) = Some c1 \<and> Close_times K (Suc n) (cc s) = Some c1
           \<and> (\<forall>evs s'. crun K evs (s\<lparr>cc := c1\<rparr>) = Some s' \<longrightarrow>
                 closed (read (cc s'))
               \<and> Read_woken (read (cc s')) ontime = Some ErrClosedConn
               \<and> (err (read (cc s')) = None \<longrightarrow>
                    Read (read (cc s')) m t = (ReadErr ErrClosedConn, read (cc s'))
                  \<and> Write K (cc s') p = Some (WriteErr ErrClosedConn, cc s'))
               \<and> (\<forall>e. err (read (cc s')) = Some e \<longrightarrow>
                    Write K (cc s') p = Some (WriteErr e, cc s')))"
proof -
  from crun_inv [OF cinit_inv [OF assms(1)] assms(2)] have inv: "cs_inv s" by simp
  then have ci: "conn_inv (cc s)" by (simp add: cs_inv_def)
  from Close_props [OF ci, of K] obtain c1 where
    c1: "Close K (cc s) = Some c1" "conn_inv c1"
      "\<forall>S pre. rc_inv S pre (read (cc s)) \<longrightarrow> rc_inv S pre (read c1)" "closed (read c1)"
    by blast
  have inv1: "cs_inv (s\<lparr>cc := c1\<rparr>)" by (rule cs_inv_update [OF inv c1(2) c1(3)])
  have times: "Close_times K (Suc n) (cc s) = Some c1"
    using c1(1) Close_again [OF c1(1), of n] by simp
  have after: "closed (read (cc s'))
               \<and> Read_woken (read (cc s')) ontime = Some ErrClosedConn
               \<and> (err (read (cc s')) = None \<longrightarrow>
                    Read (read (cc s')) m t = (ReadErr ErrClosedConn, read (cc s'))
                  \<and> Write K (cc s') p = Some (WriteErr ErrClosedConn, cc s'))
               \<and> (\<forall>e. err (read (cc s')) = Some e \<longrightarrow>
                    Write K (cc s') p = Some (WriteErr e, cc s'))"
    if run: "crun K evs (s\<lparr>cc := c1\<rparr>) = Some s'" for evs s'
  proof -
    from crun_inv [OF inv1 run] c1(4) have "closed (read (cc s'))" by simp
    then show ?thesis by (simp add: Read_def Read_woken_def Write_def)
  qed
  from c1(1) times after show ?thesis by blast
qed

theorem Close_idempotent_witness:
  "newClientConn opts_example ''http://:10001/'' (Some (AES128, ''tcp0123456789abc'')) 7 5 None
          = Inr conn_example
   \<and> crun opts_example [] (cinit conn_example) = Some (cinit conn_example)
   \<and> (\<exists>c1. Close opts_example conn_example = Some c1
          \<and> Close_times opts_example (Suc 2) conn_example = Some c1
          \<and> Read (read c1) 10 False = (ReadErr ErrClosedConn, read c1)
          \<and> Read_woken (read c1) True = Some ErrClosedConn
          \<and> Write opts_example c1 [1] = Some (WriteErr ErrClosedConn, c1)
          \<and> (\<exists>s'. crun opts_example [CReadSide (FeedError ErrInvalidFrames)]
                      ((cinit conn_example)\<lparr>cc := c1\<rparr>) = Some s'
                 \<and> Write opts_example (cc s') [1] = Some (WriteErr ErrInvalidFrames, cc s')))"
proof -
  have h1: "newClientConn opts_example ''http://:10001/'' (Some (AES128, ''tcp0123456789abc'')) 7 5 None
          = Inr conn_example"
    by (simp add: newClientConn_def newReadConn_def opts_example_def conn_example_def)
  have h2: "crun opts_example [] (cinit conn_example) = Some (cinit conn_example)" by simp
  from Close_idempotent [OF h1 h2, of 2 True 10 False "[1]"] obtain c1 where
    c1: "Close opts_example (cc (cinit conn_example)) = Some c1"
      "Close_times opts_example (Suc 2) (cc (cinit conn_example)) = Some c1"
    and after: "\<forall>evs s'. crun opts_example evs ((cinit conn_example)\<lparr>cc := c1\<rparr>) = Some s' \<longrightarrow>
                 closed (read (cc s'))
               \<and> Read_woken (read (cc s')) True = Some ErrClosedConn
               \<and> (err (read (cc s')) = None \<longrightarrow>
                    Read (read (cc s')) 10 False = (ReadErr ErrClosedConn, read (cc s'))
                  \<and> Write opts_example (cc s') [1] = Some (WriteErr ErrClosedConn, cc s'))
               \<and> (\<forall>e. err (read (cc s')) = Some e \<longrightarrow>
                    Write opts_example (cc s') [1] = Some (WriteErr e, cc s'))"
    by blast
  have run: "crun opts_example [] ((cinit conn_example)\<lparr>cc := c1\<rparr>)
               = Some ((cinit conn_example)\<lparr>cc := c1\<rparr>)"
    by simp
  from after [rule_format, OF run]
  have a: "Read_woken (read c1) True = Some ErrClosedConn"
    "err (read c1) = None \<longrightarrow>
       Read (read c1) 10 False = (ReadErr ErrClosedConn, read c1)
     \<and> Write opts_example c1 [1] = Some (WriteErr ErrClosedConn, c1)"
    by simp_all
  from c1(1) have e: "err (read c1) = None" and cl: "closed (read c1)"
    by (auto simp: cinit_def Close_def close_def chan_close_def conn_example_def Let_def
          split: option.splits if_splits)
  from cl obtain s' where
    run2: "crun opts_example [CReadSide (FeedError ErrInvalidFrames)]
             ((cinit conn_example)\<lparr>cc := c1\<rparr>) = Some s'"
    and e2: "err (read (cc s')) = Some ErrInvalidFrames"
    by (auto simp: read_sys_def feedError_def close_def)
  from after [rule_format, OF run2] e2
  have "Write opts_example (cc s') [1] = Some (WriteErr ErrInvalidFrames, cc s')" by simp
  with run2 a e c1 h1 h2 show ?thesis by (auto simp: cinit_def)
qed

text \<open>
  C8, as stated, fails for \<open>Write\<close> on a connection with a sticky error: after
  \<open>feedError\<close> of "invalid frames" and a \<open>Close\<close>, \<open>Write\<close> returns that error,
  not \<open>ErrClosedConn\<close>.
\<close>

theorem write_after_Close_counterexample:
  "crun opts_example [CReadSide (FeedError ErrInvalidFrames), CClose] (cinit conn_example)
     = Some (cinit conn_failed_closed_example)
   \<and> Write opts_example conn_failed_closed_example [1]
     = Some (WriteErr ErrInvalidFrames, conn_failed_closed_example)"
  by (simp add: cinit_def conn_example_def conn_failed_closed_example_def opts_example_def
        read_sys_def feedError_def Write_def Close_def close_def chan_close_def Let_def)

section \<open>Properties of the orchestrator's poll\<close>

text \<open>The loop over a poll response ends at the terminator and at a frame that does not parse.\<close>

lemma poll_frames_stops:
  "poll_frames K conns (None # rest) = Some conns"
  "idx g = 0 \<Longrightarrow> poll_frames K conns (Some g # rest) = Some conns"
  by simp_all

text \<open>
  C9, as amended. For a frame of a poll response, the connections polled being in a
  reachable state: if no connection is registered under the frame's \<open>connIdx\<close>, or its
  read side is closed or has a sticky error, nothing changes; otherwise, if the
  frame's options are equal to \<open>optClosed\<close>, the error is fed to the read side and the
  connection is closed, the frame not being put on \<open>respCh\<close>; otherwise the frame is
  appended to the connection's \<open>respCh\<close>.
\<close>

theorem poll_frame_dispatch:
  assumes "\<forall>c. conns (connIdx g) = Some c \<longrightarrow> conn_inv c"
  shows "((conns (connIdx g) = None
            \<or> (\<exists>c. conns (connIdx g) = Some c \<and> (closed (read c) \<or> err (read c) \<noteq> None)))
          \<longrightarrow> on_poll_frame K conns g = Some conns)
       \<and> (\<forall>c. conns (connIdx g) = Some c \<and> \<not> closed (read c) \<and> err (read c) = None
              \<and> options g = optClosed K \<longrightarrow>
            (\<exists>r' c'. feedError ErrPeerClosed (read c) = Some r'
                \<and> Close K (c\<lparr>read := r'\<rparr>) = Some c'
                \<and> on_poll_frame K conns g = Some (conns(connIdx g \<mapsto> c'))
                \<and> err (read c') = Some ErrPeerClosed \<and> closed (read c')
                \<and> chan_closed (respCh c') \<and> items (respCh c') = items (respCh c)))
       \<and> (\<forall>c. conns (connIdx g) = Some c \<and> \<not> closed (read c) \<and> err (read c) = None
              \<and> options g \<noteq> optClosed K \<longrightarrow>
            on_poll_frame K conns g
              = Some (conns(connIdx g \<mapsto>
                  c\<lparr>respCh := (respCh c)\<lparr>items := items (respCh c) @
                                 [\<lparr>node_r = None, node_f = g\<rparr>]\<rparr>\<rparr>)))"
proof (intro conjI allI impI)
  assume "conns (connIdx g) = None
            \<or> (\<exists>c. conns (connIdx g) = Some c \<and> (closed (read c) \<or> err (read c) \<noteq> None))"
  then show "on_poll_frame K conns g = Some conns"
    by (auto simp: on_poll_frame_def)
next
  fix c
  assume a: "conns (connIdx g) = Some c \<and> \<not> closed (read c) \<and> err (read c) = None
              \<and> options g = optClosed K"
  then have ci: "conn_inv c" using assms by blast
  then have "chan_closed (frames (read c)) = closed (read c)" by (simp add: conn_inv_def)
  from feedError_total [OF this, of ErrPeerClosed] obtain r' where
    r': "feedError ErrPeerClosed (read c) = Some r'" by blast
  note p = feedError_props [OF r']
  have "conn_inv (c\<lparr>read := r'\<rparr>)" using ci p by (simp add: conn_inv_def)
  from Close_props [OF this, of K] obtain c' where
    c': "Close K (c\<lparr>read := r'\<rparr>) = Some c'" "conn_inv c'" "closed (read c')"
      "err (read c') = err r'" by auto
  from Close_once [OF c'(1)] c'(2) have cl: "chan_closed (respCh c')" by (simp add: conn_inv_def)
  from c'(1) a ci have it: "items (respCh c') = items (respCh c)"
    by (auto simp: Close_def Let_def chan_close_def split: option.splits if_splits)
  show "\<exists>r' c'. feedError ErrPeerClosed (read c) = Some r'
                \<and> Close K (c\<lparr>read := r'\<rparr>) = Some c'
                \<and> on_poll_frame K conns g = Some (conns(connIdx g \<mapsto> c'))
                \<and> err (read c') = Some ErrPeerClosed \<and> closed (read c')
                \<and> chan_closed (respCh c') \<and> items (respCh c') = items (respCh c)"
    using a r' c' p cl it by (auto simp: on_poll_frame_def)
next
  fix c
  assume a: "conns (connIdx g) = Some c \<and> \<not> closed (read c) \<and> err (read c) = None
              \<and> options g \<noteq> optClosed K"
  then have ci: "conn_inv c" using assms by blast
  with a have "\<not> chan_closed (respCh c)" by (auto simp: conn_inv_def)
  with a show "on_poll_frame K conns g
              = Some (conns(connIdx g \<mapsto>
                  c\<lparr>respCh := (respCh c)\<lparr>items := items (respCh c) @
                                 [\<lparr>node_r = None, node_f = g\<rparr>]\<rparr>\<rparr>))"
    by (simp add: on_poll_frame_def chan_send_def)
qed

theorem poll_frame_dispatch_witness:
  "conn_inv conn_example
   \<and> on_poll_frame opts_example [7 \<mapsto> conn_example]
        \<lparr>idx = 1, connIdx = 7, options = 0, data = [1]\<rparr>
     = Some [7 \<mapsto> conn_example\<lparr>respCh := \<lparr>items =
          [\<lparr>node_r = None, node_f = \<lparr>idx = 1, connIdx = 7, options = 0, data = [1]\<rparr>\<rparr>],
          chan_closed = False\<rparr>\<rparr>]
   \<and> (\<exists>c'. on_poll_frame opts_example [7 \<mapsto> conn_example]
              \<lparr>idx = 1, connIdx = 7, options = 8, data = []\<rparr> = Some [7 \<mapsto> c']
          \<and> err (read c') = Some ErrPeerClosed \<and> closed (read c'))
   \<and> on_poll_frame opts_example [7 \<mapsto> conn_example]
        \<lparr>idx = 1, connIdx = 3, options = 0, data = [1]\<rparr> = Some [7 \<mapsto> conn_example]"
proof -
  have ci: "conn_inv conn_example"
    by (simp add: conn_inv_def conn_example_def ps_ok_def)
  have h: "\<forall>c. [7 \<mapsto> conn_example] k = Some c \<longrightarrow> conn_inv c" for k :: "64 word"
    using ci by (auto split: if_splits)
  have c: "\<not> closed (read conn_example)" "err (read conn_example) = None"
      "respCh conn_example = \<lparr>items = [], chan_closed = False\<rparr>"
    by (simp_all add: conn_example_def)
  from poll_frame_dispatch [where conns = "[7 \<mapsto> conn_example]" and K = opts_example
      and g = "\<lparr>idx = 1, connIdx = 7, options = 0, data = [1]\<rparr>", OF h]
  have 1: "on_poll_frame opts_example [7 \<mapsto> conn_example]
        \<lparr>idx = 1, connIdx = 7, options = 0, data = [1]\<rparr>
     = Some [7 \<mapsto> conn_example\<lparr>respCh := \<lparr>items =
          [\<lparr>node_r = None, node_f = \<lparr>idx = 1, connIdx = 7, options = 0, data = [1]\<rparr>\<rparr>],
          chan_closed = False\<rparr>\<rparr>]"
    using c by (simp add: opts_example_def)
  from poll_frame_dispatch [where conns = "[7 \<mapsto> conn_example]" and K = opts_example
      and g = "\<lparr>idx = 1, connIdx = 7, options = 8, data = []\<rparr>", OF h]
  have 2: "\<exists>c'. on_poll_frame opts_example [7 \<mapsto> conn_example]
              \<lparr>idx = 1, connIdx = 7, options = 8, data = []\<rparr> = Some [7 \<mapsto> c']
          \<and> err (read c') = Some ErrPeerClosed \<and> closed (read c')"
    using c by (auto simp: opts_example_def)
  from poll_frame_dispatch [where conns = "[7 \<mapsto> conn_example]" and K = opts_example
      and g = "\<lparr>idx = 1, connIdx = 3, options = 0, data = [1]\<rparr>", OF h]
  have 3: "on_poll_frame opts_example [7 \<mapsto> conn_example]
        \<lparr>idx = 1, connIdx = 3, options = 0, data = [1]\<rparr> = Some [7 \<mapsto> conn_example]"
    by simp
  from ci 1 2 3 show ?thesis by blast
qed

text \<open>
  C9, as stated, fails for a frame whose options hold the \<open>optClosed\<close> bit and another
  one: the source compares \<open>f.options == optClosed\<close>, so the frame is put on
  \<open>respCh\<close> and the connection stays open.
\<close>

theorem poll_frame_closed_bit_counterexample:
  "(10 :: 16 word) AND optClosed opts_example \<noteq> 0
   \<and> on_poll_frame opts_example [7 \<mapsto> conn_example]
        \<lparr>idx = 1, connIdx = 7, options = 10, data = []\<rparr>
     = Some [7 \<mapsto> conn_example\<lparr>respCh := \<lparr>items =
          [\<lparr>node_r = None, node_f = \<lparr>idx = 1, connIdx = 7, options = 10, data = []\<rparr>\<rparr>],
          chan_closed = False\<rparr>\<rparr>]"
  by (simp add: on_poll_frame_def opts_example_def conn_example_def chan_send_def)

end
